theory Spec2Isabelle
  imports Main "HOL-Library.Sublist"
begin

section \<open>drf\_yasg.codecs: the OpenAPI codecs\<close>

text \<open>
  A shallow embedding of \<^verbatim>\<open>src/drf_yasg/codecs.py\<close>: the validating encoder
  \<^verbatim>\<open>_OpenAPICodec.encode\<close>, the two validators of the \<^verbatim>\<open>VALIDATORS\<close> table, the JSON
  codec's \<^verbatim>\<open>_dump_dict\<close> and the representers of \<^verbatim>\<open>SaneYamlDumper\<close>.

  Python names that start with an underscore lose it (\<^verbatim>\<open>_validate_flex\<close> is
  \<open>validate_flex\<close>, \<^verbatim>\<open>_dump_dict\<close> is \<open>dump_dict\<close>), since an Isabelle name cannot start
  with one.
\<close>

subsection \<open>Python values\<close>

text \<open>
  A Python \<^verbatim>\<open>str\<close> is a sequence of Unicode code points, so text is a list of
  natural numbers; \<open>u\<close> turns an ASCII literal into such a list. Floats are left out of
  the document type: their text is \<^verbatim>\<open>float.__repr__\<close>, which this embedding does not
  model.
\<close>

type_synonym pystr = "nat list"

definition u :: "string \<Rightarrow> pystr" where
  "u s = map of_char s"

text \<open>
  The value of a document: what \<^verbatim>\<open>==\<close> compares. Mappings are \<^verbatim>\<open>OrderedDict\<close>s, whose
  equality and iteration follow insertion order, hence association lists.
\<close>

datatype doc =
    DStr pystr
  | DInt int
  | DBool bool
  | DNull
  | DList "doc list"
  | DMap "(pystr \<times> doc) list"

text \<open>
  Lists and \<^verbatim>\<open>OrderedDict\<close>s are mutable objects with an identity: they live in a heap
  and are referred to by address (\<^verbatim>\<open>id(x)\<close>). Strings, integers, booleans and \<^verbatim>\<open>None\<close>
  are immutable and are held inline.
\<close>

type_synonym addr = nat

datatype val = VStr pystr | VInt int | VBool bool | VNone | Ref addr

datatype obj = PyList "val list" | PyODict "(pystr \<times> val) list"

type_synonym heap = "obj list"

text \<open>Building a fresh object graph for a document value: new cells only, appended.\<close>

fun alloc :: "doc \<Rightarrow> heap \<Rightarrow> val \<times> heap"
  and alloc_list :: "doc list \<Rightarrow> heap \<Rightarrow> val list \<times> heap"
  and alloc_items :: "(pystr \<times> doc) list \<Rightarrow> heap \<Rightarrow> (pystr \<times> val) list \<times> heap"
where
  "alloc (DStr s) h = (VStr s, h)"
| "alloc (DInt i) h = (VInt i, h)"
| "alloc (DBool b) h = (VBool b, h)"
| "alloc DNull h = (VNone, h)"
| "alloc (DList ds) h =
     (case alloc_list ds h of (vs, h') \<Rightarrow> (Ref (length h'), h' @ [PyList vs]))"
| "alloc (DMap kvs) h =
     (case alloc_items kvs h of (its, h') \<Rightarrow> (Ref (length h'), h' @ [PyODict its]))"
| "alloc_list [] h = ([], h)"
| "alloc_list (d # ds) h =
     (case alloc d h of (v, h1) \<Rightarrow>
        case alloc_list ds h1 of (vs, h2) \<Rightarrow> (v # vs, h2))"
| "alloc_items [] h = ([], h)"
| "alloc_items (kd # kvs) h =
     (case alloc (snd kd) h of (v, h1) \<Rightarrow>
        case alloc_items kvs h1 of (its, h2) \<Rightarrow> ((fst kd, v) # its, h2))"

text \<open>
  Reading the document value of an object graph. The first argument bounds the nesting
  depth followed; \<open>None\<close> means the graph is not a finite tree within that bound (a
  dangling address, or a cycle).
\<close>

fun read :: "nat \<Rightarrow> heap \<Rightarrow> val \<Rightarrow> doc option"
  and read_list :: "nat \<Rightarrow> heap \<Rightarrow> val list \<Rightarrow> doc list option"
  and read_items :: "nat \<Rightarrow> heap \<Rightarrow> (pystr \<times> val) list \<Rightarrow> (pystr \<times> doc) list option"
where
  "read n h (VStr s) = Some (DStr s)"
| "read n h (VInt i) = Some (DInt i)"
| "read n h (VBool b) = Some (DBool b)"
| "read n h VNone = Some DNull"
| "read 0 h (Ref a) = None"
| "read (Suc n) h (Ref a) =
     (if a < length h then
        (case h ! a of
           PyList vs \<Rightarrow> map_option DList (read_list n h vs)
         | PyODict its \<Rightarrow> map_option DMap (read_items n h its))
      else None)"
| "read_list n h [] = Some []"
| "read_list n h (v # vs) =
     (case read n h v of
        None \<Rightarrow> None
      | Some d \<Rightarrow> (case read_list n h vs of None \<Rightarrow> None | Some ds \<Rightarrow> Some (d # ds)))"
| "read_items n h [] = Some []"
| "read_items n h (kv # its) =
     (case read n h (snd kv) of
        None \<Rightarrow> None
      | Some d \<Rightarrow>
          (case read_items n h its of
             None \<Rightarrow> None
           | Some kds \<Rightarrow> Some ((fst kv, d) # kds)))"

text \<open>The whole heap as depth bound: enough for every graph without a cycle.\<close>

definition deref :: "heap \<Rightarrow> val \<Rightarrow> doc option" where
  "deref h v = read (length h) h v"

text \<open>
  \<^verbatim>\<open>copy.deepcopy(x)\<close>: a new object graph with the value of \<open>x\<close>, sharing no mutable
  object with it. The document graphs of this model are trees, where that is all
  \<^verbatim>\<open>deepcopy\<close> does; a graph that is not a finite tree has no copy here (\<open>None\<close>).
\<close>

definition deepcopy :: "heap \<Rightarrow> val \<Rightarrow> (val \<times> heap) option" where
  "deepcopy h v = (case deref h v of None \<Rightarrow> None | Some d \<Rightarrow> Some (alloc d h))"

text \<open>The addresses an object refers to directly, and those reachable from a value.\<close>

fun refs_of :: "val list \<Rightarrow> addr list" where
  "refs_of [] = []"
| "refs_of (Ref a # vs) = a # refs_of vs"
| "refs_of (v # vs) = refs_of vs"

fun children :: "obj \<Rightarrow> addr list" where
  "children (PyList vs) = refs_of vs"
| "children (PyODict its) = refs_of (map snd its)"

inductive reach :: "heap \<Rightarrow> val \<Rightarrow> addr \<Rightarrow> bool" for h :: heap where
  reach_root: "reach h (Ref a) a"
| reach_step: "reach h v a \<Longrightarrow> a < length h \<Longrightarrow> c \<in> set (children (h ! a)) \<Longrightarrow> reach h v c"

subsection \<open>Exceptions\<close>

text \<open>
  Every exception the module can let escape is a value. \<open>SwaggerValidationError\<close> is
  declared in \<^verbatim>\<open>drf_yasg/errors.py\<close>, which is not among the sources; its three fields
  are the arguments \<^verbatim>\<open>encode\<close> constructs it with (the message, the error mapping and the
  spec; the codec itself, the fourth, is left out), and \<^verbatim>\<open>str(e)\<close> of one is its
  message, as for every Python exception built from a single message.
\<close>

datatype exn =
    TypeError pystr
  | KeyError pystr
  | ImportError pystr
  | NotImplementedError pystr
  | IndexError
  | UnicodeEncodeError
  | ValueError pystr
  | RecursionError
  | SwaggerValidationError pystr "(pystr \<times> pystr) list option" "val option"
  | OtherError pystr

text \<open>\<^verbatim>\<open>except SwaggerValidationError as e: ... str(e)\<close>: the message when the clause matches.\<close>

fun caught_message :: "exn \<Rightarrow> pystr option" where
  "caught_message (SwaggerValidationError msg errs spec) = Some msg"
| "caught_message e = None"

subsection \<open>The validators\<close>

text \<open>
  The two validation engines are third-party packages that may or may not be
  importable. An engine takes the spec object and may mutate it; it returns, raises its
  own validation error (whose \<^verbatim>\<open>str\<close> is the message) or raises something else.
  \<open>isprintable\<close> is \<^verbatim>\<open>str.isprintable\<close> on one code point (the Unicode database).
\<close>

datatype engine_result = Passed | Rejected pystr | Crashed exn

type_synonym engine = "val \<Rightarrow> heap \<Rightarrow> heap \<times> engine_result"

record env =
  flex_core_parse :: "engine option"
  ssv_validate_spec :: "engine option"
  isprintable :: "nat \<Rightarrow> bool"

type_synonym validator = "env \<Rightarrow> val \<Rightarrow> heap \<Rightarrow> heap \<times> (exn + unit)"

definition validate_flex :: validator where
  "validate_flex e spec h =
     (case flex_core_parse e of
        None \<Rightarrow> (h, Inr ())
      | Some validate_flex_engine \<Rightarrow>
          (case validate_flex_engine spec h of
             (h', Passed) \<Rightarrow> (h', Inr ())
           | (h', Rejected ex) \<Rightarrow> (h', Inl (SwaggerValidationError ex None None))
           | (h', Crashed x) \<Rightarrow> (h', Inl x)))"

definition validate_swagger_spec_validator :: validator where
  "validate_swagger_spec_validator e spec h =
     (case ssv_validate_spec e of
        None \<Rightarrow> (h, Inl (ImportError (u ''swagger_spec_validator'')))
      | Some validate_ssv \<Rightarrow>
          (case validate_ssv spec h of
             (h', Passed) \<Rightarrow> (h', Inr ())
           | (h', Rejected ex) \<Rightarrow> (h', Inl (SwaggerValidationError ex None None))
           | (h', Crashed x) \<Rightarrow> (h', Inl x)))"

text \<open>The module-level table. It is a plain dictionary: \<^verbatim>\<open>VALIDATORS[name]\<close> on a missing
  name raises \<^verbatim>\<open>KeyError\<close>.\<close>

definition VALIDATORS :: "pystr \<rightharpoonup> validator" where
  "VALIDATORS = [u ''flex'' \<mapsto> validate_flex, u ''ssv'' \<mapsto> validate_swagger_spec_validator]"

text \<open>An environment where neither engine can be imported.\<close>

definition no_engines :: env where
  "no_engines = \<lparr>flex_core_parse = None, ssv_validate_spec = None, isprintable = (\<lambda>c. True)\<rparr>"

subsection \<open>Text of the error report\<close>

text \<open>\<^verbatim>\<open>errors[validator] = ...\<close> on an insertion-ordered dictionary.\<close>

fun dict_set :: "(pystr \<times> 'v) list \<Rightarrow> pystr \<Rightarrow> 'v \<Rightarrow> (pystr \<times> 'v) list" where
  "dict_set [] k v = [(k, v)]"
| "dict_set (kv # kvs) k v =
     (if fst kv = k then (k, v) # kvs else kv # dict_set kvs k v)"

text \<open>\<^verbatim>\<open>sep.join(parts)\<close>.\<close>

fun join :: "pystr \<Rightarrow> pystr list \<Rightarrow> pystr" where
  "join sep [] = []"
| "join sep [x] = x"
| "join sep (x # y # ys) = x @ sep @ join sep (y # ys)"

definition hex_digit :: "nat \<Rightarrow> nat" where
  "hex_digit d = (if d < 10 then 48 + d else 87 + d)"

fun hex_fixed :: "nat \<Rightarrow> nat \<Rightarrow> pystr" where
  "hex_fixed 0 n = []"
| "hex_fixed (Suc w) n = hex_fixed w (n div 16) @ [hex_digit (n mod 16)]"

text \<open>
  \<^verbatim>\<open>repr\<close> of a string, as CPython's \<^verbatim>\<open>unicode_repr\<close> writes it: single quotes unless the
  text has a single quote and no double quote; the quote and the backslash escaped; tab,
  newline and carriage return as \<^verbatim>\<open>\t \n \r\<close>; other control characters and unprintable
  code points in hexadecimal.
\<close>

definition repr_char :: "(nat \<Rightarrow> bool) \<Rightarrow> nat \<Rightarrow> nat \<Rightarrow> pystr" where
  "repr_char printable q c =
     (if c = q \<or> c = 92 then [92, c]
      else if c = 9 then [92, 116]
      else if c = 10 then [92, 110]
      else if c = 13 then [92, 114]
      else if c < 32 \<or> c = 127 then [92, 120] @ hex_fixed 2 c
      else if c < 127 then [c]
      else if printable c then [c]
      else if c \<le> 255 then [92, 120] @ hex_fixed 2 c
      else if c \<le> 65535 then [92, 117] @ hex_fixed 4 c
      else [92, 85] @ hex_fixed 8 c)"

definition repr_quote :: "pystr \<Rightarrow> nat" where
  "repr_quote s = (if 39 \<in> set s \<and> 34 \<notin> set s then 34 else 39)"

definition py_repr :: "(nat \<Rightarrow> bool) \<Rightarrow> pystr \<Rightarrow> pystr" where
  "py_repr printable s =
     [repr_quote s] @ concat (map (repr_char printable (repr_quote s)) s) @ [repr_quote s]"

text \<open>\<^verbatim>\<open>str\<close> of a dictionary of strings, which is what \<^verbatim>\<open>"{}".format(errors)\<close> inserts.\<close>

definition dict_item_repr :: "(nat \<Rightarrow> bool) \<Rightarrow> pystr \<times> pystr \<Rightarrow> pystr" where
  "dict_item_repr printable kv = py_repr printable (fst kv) @ u '': '' @ py_repr printable (snd kv)"

definition dict_repr :: "(nat \<Rightarrow> bool) \<Rightarrow> (pystr \<times> pystr) list \<Rightarrow> pystr" where
  "dict_repr printable kvs = [123] @ join (u '', '') (map (dict_item_repr printable) kvs) @ [125]"

definition failure_message :: "(nat \<Rightarrow> bool) \<Rightarrow> (pystr \<times> pystr) list \<Rightarrow> pystr" where
  "failure_message printable errors = u ''spec validation failed: '' @ dict_repr printable errors"

subsection \<open>The codec and \<^verbatim>\<open>encode\<close>\<close>

text \<open>
  \<^verbatim>\<open>force_bytes\<close> of \<^verbatim>\<open>coreapi.compat\<close> encodes text as UTF-8 and passes bytes through.
  \<^verbatim>\<open>str.encode('utf-8')\<close> refuses surrogate code points.
\<close>

datatype pyout = Text pystr | Bytes "nat list"

definition utf8_char :: "nat \<Rightarrow> nat list option" where
  "utf8_char c =
     (if c < 128 then Some [c]
      else if c < 2048 then Some [192 + c div 64, 128 + c mod 64]
      else if c < 65536 then
        (if 55296 \<le> c \<and> c \<le> 57343 then None
         else Some [224 + c div 4096, 128 + (c div 64) mod 64, 128 + c mod 64])
      else if c < 1114112 then
        Some [240 + c div 262144, 128 + (c div 4096) mod 64, 128 + (c div 64) mod 64,
              128 + c mod 64]
      else None)"

fun utf8_encode :: "pystr \<Rightarrow> nat list option" where
  "utf8_encode [] = Some []"
| "utf8_encode (c # cs) =
     (case utf8_char c of
        None \<Rightarrow> None
      | Some bs \<Rightarrow> (case utf8_encode cs of None \<Rightarrow> None | Some rest \<Rightarrow> Some (bs @ rest)))"

definition force_bytes :: "pyout \<Rightarrow> exn + nat list" where
  "force_bytes out =
     (case out of
        Bytes b \<Rightarrow> Inr b
      | Text s \<Rightarrow> (case utf8_encode s of None \<Rightarrow> Inl UnicodeEncodeError | Some b \<Rightarrow> Inr b))"

text \<open>
  A codec instance: the validator names it was constructed with, and its \<^verbatim>\<open>_dump_dict\<close>
  method, which the subclasses override. The method is handed the spec object.
\<close>

record codec =
  validators :: "pystr list"
  dump_dict :: "heap \<Rightarrow> val \<Rightarrow> exn + pyout"

text \<open>The base class's \<^verbatim>\<open>_dump_dict\<close>.\<close>

definition base_dump_dict :: "heap \<Rightarrow> val \<Rightarrow> exn + pyout" where
  "base_dump_dict h spec = Inl (NotImplementedError (u ''override this method''))"

definition OpenAPICodec :: "pystr list \<Rightarrow> codec" where
  "OpenAPICodec vs = \<lparr>validators = vs, dump_dict = base_dump_dict\<rparr>"

text \<open>
  The state \<^verbatim>\<open>encode\<close> runs in: the heap, the record of the validator calls made so far
  (name, argument and outcome, in call order) and the warnings logged.
\<close>

record state =
  mem :: heap
  calls :: "(pystr \<times> val \<times> (exn + unit)) list"
  warnings :: "pystr list"

text \<open>The argument of \<^verbatim>\<open>encode\<close>: an \<^verbatim>\<open>openapi.Swagger\<close> instance, or any other object.\<close>

datatype 'sw pyarg = Swagger 'sw | NotSwagger

text \<open>
  Modelled from the spec: \<^verbatim>\<open>openapi.Swagger.as_odict\<close> is not among the sources. The
  conversion yields an ordered document, a fresh tree of ordered mappings, sequences and
  scalars whose root is an \<^verbatim>\<open>OrderedDict\<close>; its items are the parameter \<open>as_odict\<close>.
\<close>

definition generate_swagger_object :: "('sw \<Rightarrow> (pystr \<times> doc) list) \<Rightarrow> 'sw \<Rightarrow> heap \<Rightarrow> val \<times> heap" where
  "generate_swagger_object as_odict swagger h = alloc (DMap (as_odict swagger)) h"

text \<open>
  The loop of \<^verbatim>\<open>encode\<close> over \<^verbatim>\<open>self.validators\<close>. Each round looks the name up (a
  missing name raises \<^verbatim>\<open>KeyError\<close>), copies the spec, calls the validator on the copy, and
  stores the message of a \<^verbatim>\<open>SwaggerValidationError\<close> under the validator's name; any other
  exception leaves the loop. The result is \<open>None\<close> only where the spec has no copy, that
  is, outside the model.
\<close>

fun run_validators ::
  "(pystr \<rightharpoonup> validator) \<Rightarrow> env \<Rightarrow> pystr list \<Rightarrow> val \<Rightarrow> (pystr \<times> pystr) list \<Rightarrow> state
     \<Rightarrow> (state \<times> (exn + (pystr \<times> pystr) list)) option"
where
  "run_validators table e [] spec errors st = Some (st, Inr errors)"
| "run_validators table e (name # names) spec errors st =
     (case table name of
        None \<Rightarrow> Some (st, Inl (KeyError name))
      | Some f \<Rightarrow>
          (case deepcopy (mem st) spec of
             None \<Rightarrow> None
           | Some (copy, h1) \<Rightarrow>
               (case f e copy h1 of
                  (h2, r) \<Rightarrow>
                    (let st' = st\<lparr>mem := h2, calls := calls st @ [(name, copy, r)]\<rparr> in
                     case r of
                       Inr _ \<Rightarrow> run_validators table e names spec errors st'
                     | Inl ex \<Rightarrow>
                         (case caught_message ex of
                            Some msg \<Rightarrow>
                              run_validators table e names spec (dict_set errors name msg) st'
                          | None \<Rightarrow> Some (st', Inl ex))))))"

text \<open>\<^verbatim>\<open>force_bytes(self._dump_dict(x))\<close>, the last line of \<^verbatim>\<open>encode\<close> and all of
  \<^verbatim>\<open>encode_error\<close>.\<close>

definition encode_error :: "codec \<Rightarrow> heap \<Rightarrow> val \<Rightarrow> exn + nat list" where
  "encode_error self h err =
     (case dump_dict self h err of Inl ex \<Rightarrow> Inl ex | Inr out \<Rightarrow> force_bytes out)"

definition encode ::
  "(pystr \<rightharpoonup> validator) \<Rightarrow> env \<Rightarrow> ('sw \<Rightarrow> (pystr \<times> doc) list) \<Rightarrow> codec \<Rightarrow> 'sw pyarg \<Rightarrow> state
     \<Rightarrow> (state \<times> (exn + nat list)) option"
where
  "encode table e as_odict self document st =
     (case document of
        NotSwagger \<Rightarrow> Some (st, Inl (TypeError (u ''Expected a `openapi.Swagger` instance'')))
      | Swagger swagger \<Rightarrow>
          (case generate_swagger_object as_odict swagger (mem st) of
             (spec, h1) \<Rightarrow>
               (case run_validators table e (validators self) spec [] (st\<lparr>mem := h1\<rparr>) of
                  None \<Rightarrow> None
                | Some (st', Inl ex) \<Rightarrow> Some (st', Inl ex)
                | Some (st', Inr errors) \<Rightarrow>
                    (if errors \<noteq> [] then
                       (let msg = failure_message (isprintable e) errors in
                        Some (st'\<lparr>warnings := warnings st' @ [msg]\<rparr>,
                              Inl (SwaggerValidationError msg (Some errors) (Some spec))))
                     else Some (st', encode_error self (mem st') spec)))))"

subsection \<open>The JSON codec\<close>

text \<open>
  \<^verbatim>\<open>json.dumps\<close> is the standard library's; what follows is its encoder
  (\<^verbatim>\<open>json.encoder\<close>) for the arguments \<^verbatim>\<open>_dump_dict\<close> passes: \<^verbatim>\<open>ensure_ascii=False\<close>
  always, and either \<^verbatim>\<open>indent=4, separators=(",", ": ")\<close> or the defaults, which with
  \<^verbatim>\<open>indent=None\<close> are \<^verbatim>\<open>(", ", ": ")\<close>.
\<close>

function dec :: "nat \<Rightarrow> pystr" where
  "dec n = (if n < 10 then [48 + n] else dec (n div 10) @ [48 + n mod 10])"
  by pat_completeness auto
termination
  by (relation "measure id") auto

declare dec.simps [simp del]

definition int_str :: "int \<Rightarrow> pystr" where
  "int_str i = (if i < 0 then 45 # dec (nat (- i)) else dec (nat i))"

text \<open>
  \<^verbatim>\<open>encode_basestring\<close>: the double quote, the backslash and the control characters below
  U+0020 are escaped, everything else is copied.
\<close>

definition json_escape :: "nat \<Rightarrow> pystr" where
  "json_escape c =
     (if c = 34 then [92, 34]
      else if c = 92 then [92, 92]
      else if c = 8 then [92, 98]
      else if c = 12 then [92, 102]
      else if c = 10 then [92, 110]
      else if c = 13 then [92, 114]
      else if c = 9 then [92, 116]
      else if c < 32 then [92, 117] @ hex_fixed 4 c
      else [c])"

definition encode_basestring :: "pystr \<Rightarrow> pystr" where
  "encode_basestring s = [34] @ concat (map json_escape s) @ [34]"

record json_encoder =
  indent :: "nat option"
  item_separator :: pystr
  key_separator :: pystr

definition newline_indent :: "nat \<Rightarrow> nat \<Rightarrow> pystr" where
  "newline_indent n level = 10 # replicate (n * level) 32"

text \<open>The separator written between two items at nesting level \<open>level\<close>.\<close>

definition separator :: "json_encoder \<Rightarrow> nat \<Rightarrow> pystr" where
  "separator enc level =
     (case indent enc of
        None \<Rightarrow> item_separator enc
      | Some n \<Rightarrow> item_separator enc @ newline_indent n level)"

text \<open>
  \<^verbatim>\<open>_iterencode\<close>, \<^verbatim>\<open>_iterencode_list\<close> and \<^verbatim>\<open>_iterencode_dict\<close>, the chunks joined. The two
  loops carry the \<^verbatim>\<open>first\<close> flag; \<open>level\<close> is \<^verbatim>\<open>_current_indent_level\<close>.
\<close>

fun iterencode :: "json_encoder \<Rightarrow> nat \<Rightarrow> doc \<Rightarrow> pystr"
  and iterencode_list :: "json_encoder \<Rightarrow> nat \<Rightarrow> bool \<Rightarrow> doc list \<Rightarrow> pystr"
  and iterencode_dict :: "json_encoder \<Rightarrow> nat \<Rightarrow> bool \<Rightarrow> (pystr \<times> doc) list \<Rightarrow> pystr"
where
  "iterencode enc level (DStr s) = encode_basestring s"
| "iterencode enc level (DInt i) = int_str i"
| "iterencode enc level (DBool b) = (if b then u ''true'' else u ''false'')"
| "iterencode enc level DNull = u ''null''"
| "iterencode enc level (DList lst) =
     (if lst = [] then u ''[]''
      else
        (case indent enc of
           None \<Rightarrow> [91] @ iterencode_list enc level True lst @ [93]
         | Some n \<Rightarrow>
             [91] @ newline_indent n (level + 1) @ iterencode_list enc (level + 1) True lst
               @ newline_indent n level @ [93]))"
| "iterencode enc level (DMap dct) =
     (if dct = [] then u ''{}''
      else
        (case indent enc of
           None \<Rightarrow> [123] @ iterencode_dict enc level True dct @ [125]
         | Some n \<Rightarrow>
             [123] @ newline_indent n (level + 1) @ iterencode_dict enc (level + 1) True dct
               @ newline_indent n level @ [125]))"
| "iterencode_list enc level first [] = []"
| "iterencode_list enc level first (x # xs) =
     (if first then [] else separator enc level) @ iterencode enc level x
       @ iterencode_list enc level False xs"
| "iterencode_dict enc level first [] = []"
| "iterencode_dict enc level first (kv # kvs) =
     (if first then [] else separator enc level) @ encode_basestring (fst kv)
       @ key_separator enc @ iterencode enc level (snd kv)
       @ iterencode_dict enc level False kvs"

text \<open>\<^verbatim>\<open>json.dumps\<close> on an object: a graph with a cycle is refused
  (\<^verbatim>\<open>check_circular\<close>).\<close>

definition json_dumps :: "json_encoder \<Rightarrow> heap \<Rightarrow> val \<Rightarrow> exn + pystr" where
  "json_dumps enc h x =
     (case deref h x of
        None \<Rightarrow> Inl (ValueError (u ''Circular reference detected''))
      | Some d \<Rightarrow> Inr (iterencode enc 0 d))"

definition pretty_encoder :: json_encoder where
  "pretty_encoder = \<lparr>indent = Some 4, item_separator = u '','', key_separator = u '': ''\<rparr>"

definition default_encoder :: json_encoder where
  "default_encoder = \<lparr>indent = None, item_separator = u '', '', key_separator = u '': ''\<rparr>"

text \<open>\<^verbatim>\<open>OpenAPICodecJson._dump_dict\<close>; \<^verbatim>\<open>out[-1]\<close> raises \<^verbatim>\<open>IndexError\<close> on an empty string.\<close>

definition json_dump_dict :: "bool \<Rightarrow> heap \<Rightarrow> val \<Rightarrow> exn + pyout" where
  "json_dump_dict pretty h spec =
     (if pretty then
        (case json_dumps pretty_encoder h spec of
           Inl ex \<Rightarrow> Inl ex
         | Inr out \<Rightarrow>
             (if out = [] then Inl IndexError
              else if last out \<noteq> 10 then Inr (Text (out @ [10]))
              else Inr (Text out)))
      else
        (case json_dumps default_encoder h spec of
           Inl ex \<Rightarrow> Inl ex
         | Inr out \<Rightarrow> Inr (Text out)))"


subsection \<open>The YAML dumper\<close>

text \<open>
  \<^verbatim>\<open>yaml.dump\<close> first represents the data as a graph of nodes and then serializes and
  emits the graph as text. The representers of \<^verbatim>\<open>SaneYamlDumper\<close> are in the source; the
  serializer and emitter are \<^verbatim>\<open>ruamel.yaml\<close>'s and stay a parameter, \<open>emit\<close> (the
  \<^verbatim>\<open>increase_indent\<close> override acts inside the emitter). A node the representer returns a
  second time is written \<open>AliasNode\<close>: it is what the serializer anchors and then emits
  as an alias.
\<close>

datatype node =
    ScalarNode pystr pystr "pystr option"
  | SequenceNode pystr "node list" bool
  | MappingNode pystr "(node \<times> node) list" bool
  | AliasNode addr

definition YAML_MAP_TAG :: pystr where
  "YAML_MAP_TAG = u ''tag:yaml.org,2002:map''"

text \<open>\<^verbatim>\<open>isinstance(node, yaml.ScalarNode) and not node.style\<close>.\<close>

definition plain_scalar :: "node \<Rightarrow> bool" where
  "plain_scalar nd =
     (case nd of ScalarNode t v style \<Rightarrow> style = None \<or> style = Some [] | _ \<Rightarrow> False)"

text \<open>The library's \<^verbatim>\<open>represent_scalar\<close>, with no default style configured.\<close>

definition represent_scalar :: "pystr \<Rightarrow> pystr \<Rightarrow> pystr option \<Rightarrow> node" where
  "represent_scalar t v style = ScalarNode t v style"

text \<open>\<^verbatim>\<open>SaneYamlDumper.represent_text\<close>; 10 is the newline and \<open>[124]\<close> the style \<^verbatim>\<open>'|'\<close>.\<close>

definition represent_text :: "pystr \<Rightarrow> node" where
  "represent_text text =
     (if 10 \<in> set text then represent_scalar (u ''tag:yaml.org,2002:str'') text (Some [124])
      else represent_scalar (u ''tag:yaml.org,2002:str'') text None)"

text \<open>
  \<^verbatim>\<open>ignore_aliases\<close>: the override of \<^verbatim>\<open>SaneYamlDumper\<close>, and the library's own, which
  ignores only the immutable scalars.
\<close>

definition ignore_aliases :: "val \<Rightarrow> bool" where
  "ignore_aliases data = True"

definition library_ignore_aliases :: "val \<Rightarrow> bool" where
  "library_ignore_aliases data = (case data of Ref a \<Rightarrow> False | _ \<Rightarrow> True)"

text \<open>
  \<^verbatim>\<open>self.alias_key\<close> as \<^verbatim>\<open>represent_data\<close> sets it: \<^verbatim>\<open>None\<close> when aliases are ignored for
  the object, its \<^verbatim>\<open>id\<close> otherwise. The inline scalars have no identity; both
  \<^verbatim>\<open>ignore_aliases\<close> above ignore them.
\<close>

definition alias_key_of :: "(val \<Rightarrow> bool) \<Rightarrow> val \<Rightarrow> addr option" where
  "alias_key_of ign data = (case data of Ref a \<Rightarrow> (if ign data then None else Some a) | _ \<Rightarrow> None)"

definition flow_style_of :: "bool option \<Rightarrow> bool \<Rightarrow> bool" where
  "flow_style_of default_flow_style best_style =
     (case default_flow_style of Some f \<Rightarrow> f | None \<Rightarrow> best_style)"

text \<open>
  The representer. \<open>represent_data\<close> is the library's dispatch with its alias
  bookkeeping (\<open>ro\<close> holds the keys of \<^verbatim>\<open>self.represented_objects\<close>);
  \<open>represent_odict\<close> is \<^verbatim>\<open>SaneYamlDumper.represent_odict\<close> with its loop
  \<open>represent_odict_items\<close>; \<open>represent_sequence\<close> is the library's representer of lists.
  The first numeric argument bounds the nesting depth: a graph with a cycle is not
  represented when aliases are ignored (Python ends in \<^verbatim>\<open>RecursionError\<close>).
\<close>

function (sequential) represent_data ::
    "(val \<Rightarrow> bool) \<Rightarrow> bool option \<Rightarrow> nat \<Rightarrow> heap \<Rightarrow> val \<Rightarrow> addr list \<Rightarrow> (node \<times> addr list) option"
  and represent_odict ::
    "(val \<Rightarrow> bool) \<Rightarrow> bool option \<Rightarrow> nat \<Rightarrow> heap \<Rightarrow> addr option \<Rightarrow> (pystr \<times> val) list \<Rightarrow> addr list
       \<Rightarrow> (node \<times> addr list) option"
  and represent_odict_items ::
    "(val \<Rightarrow> bool) \<Rightarrow> bool option \<Rightarrow> nat \<Rightarrow> heap \<Rightarrow> (pystr \<times> val) list \<Rightarrow> (node \<times> node) list \<Rightarrow> bool
       \<Rightarrow> addr list \<Rightarrow> ((node \<times> node) list \<times> bool \<times> addr list) option"
  and represent_sequence ::
    "(val \<Rightarrow> bool) \<Rightarrow> bool option \<Rightarrow> nat \<Rightarrow> heap \<Rightarrow> addr option \<Rightarrow> val list \<Rightarrow> addr list
       \<Rightarrow> (node \<times> addr list) option"
  and represent_sequence_items ::
    "(val \<Rightarrow> bool) \<Rightarrow> bool option \<Rightarrow> nat \<Rightarrow> heap \<Rightarrow> val list \<Rightarrow> node list \<Rightarrow> bool
       \<Rightarrow> addr list \<Rightarrow> (node list \<times> bool \<times> addr list) option"
where
  "represent_data ign dfs n h (VStr s) ro = Some (represent_text s, ro)"
| "represent_data ign dfs n h (VInt i) ro =
     Some (represent_scalar (u ''tag:yaml.org,2002:int'') (int_str i) None, ro)"
| "represent_data ign dfs n h (VBool b) ro =
     Some (represent_scalar (u ''tag:yaml.org,2002:bool'') (if b then u ''true'' else u ''false'') None, ro)"
| "represent_data ign dfs n h VNone ro =
     Some (represent_scalar (u ''tag:yaml.org,2002:null'') (u ''null'') None, ro)"
| "represent_data ign dfs 0 h (Ref a) ro = None"
| "represent_data ign dfs (Suc n) h (Ref a) ro =
     (case alias_key_of ign (Ref a) of
        Some k \<Rightarrow>
          (if k \<in> set ro then Some (AliasNode k, ro)
           else if a < length h then
             (case h ! a of
                PyODict mapping \<Rightarrow> represent_odict ign dfs n h (Some k) mapping ro
              | PyList lst \<Rightarrow> represent_sequence ign dfs n h (Some k) lst ro)
           else None)
      | None \<Rightarrow>
          (if a < length h then
             (case h ! a of
                PyODict mapping \<Rightarrow> represent_odict ign dfs n h None mapping ro
              | PyList lst \<Rightarrow> represent_sequence ign dfs n h None lst ro)
           else None))"
| "represent_odict ign dfs n h alias_key mapping ro =
     (case represent_odict_items ign dfs n h mapping [] True
             (case alias_key of None \<Rightarrow> ro | Some k \<Rightarrow> k # ro) of
        None \<Rightarrow> None
      | Some (pairs, best_style, ro') \<Rightarrow>
          Some (MappingNode YAML_MAP_TAG pairs (flow_style_of dfs best_style), ro'))"
| "represent_odict_items ign dfs n h [] pairs best_style ro = Some (pairs, best_style, ro)"
| "represent_odict_items ign dfs n h (item # items) pairs best_style ro =
     (case represent_data ign dfs n h (VStr (fst item)) ro of
        None \<Rightarrow> None
      | Some (node_key, ro1) \<Rightarrow>
          (case represent_data ign dfs n h (snd item) ro1 of
             None \<Rightarrow> None
           | Some (node_value, ro2) \<Rightarrow>
               represent_odict_items ign dfs n h items (pairs @ [(node_key, node_value)])
                 (best_style \<and> plain_scalar node_key \<and> plain_scalar node_value) ro2))"
| "represent_sequence ign dfs n h alias_key lst ro =
     (case represent_sequence_items ign dfs n h lst [] True
             (case alias_key of None \<Rightarrow> ro | Some k \<Rightarrow> k # ro) of
        None \<Rightarrow> None
      | Some (items, best_style, ro') \<Rightarrow>
          Some (SequenceNode (u ''tag:yaml.org,2002:seq'') items (flow_style_of dfs best_style), ro'))"
| "represent_sequence_items ign dfs n h [] items best_style ro = Some (items, best_style, ro)"
| "represent_sequence_items ign dfs n h (x # xs) items best_style ro =
     (case represent_data ign dfs n h x ro of
        None \<Rightarrow> None
      | Some (node_item, ro1) \<Rightarrow>
          represent_sequence_items ign dfs n h xs (items @ [node_item])
            (best_style \<and> plain_scalar node_item) ro1)"
  by pat_completeness auto
termination
  by (relation "measures
        [case_sum (case_sum (\<lambda>x. fst (snd (snd x))) (\<lambda>x. fst (snd (snd x))))
           (case_sum (\<lambda>x. fst (snd (snd x)))
              (case_sum (\<lambda>x. fst (snd (snd x))) (\<lambda>x. fst (snd (snd x))))),
         case_sum (case_sum (\<lambda>x. 0) (\<lambda>x. length (fst (snd (snd (snd (snd (snd x)))))) + 2))
           (case_sum (\<lambda>x. length (fst (snd (snd (snd (snd x))))) + 1)
              (case_sum (\<lambda>x. length (fst (snd (snd (snd (snd (snd x)))))) + 2)
                 (\<lambda>x. length (fst (snd (snd (snd (snd x))))) + 1)))]")
     simp_all

text \<open>
  \<^verbatim>\<open>yaml_sane_dump\<close>: \<^verbatim>\<open>yaml.dump\<close> with \<^verbatim>\<open>Dumper=SaneYamlDumper\<close> and
  \<^verbatim>\<open>default_flow_style=False\<close>; with \<^verbatim>\<open>binary\<close> the text is encoded as UTF-8.
\<close>

definition yaml_sane_dump :: "(node \<Rightarrow> pystr) \<Rightarrow> heap \<Rightarrow> val \<Rightarrow> bool \<Rightarrow> exn + pyout" where
  "yaml_sane_dump emit h data binary =
     (case represent_data ignore_aliases (Some False) (length h) h data [] of
        None \<Rightarrow> Inl RecursionError
      | Some (nd, ro) \<Rightarrow>
          (if binary then
             (case utf8_encode (emit nd) of
                None \<Rightarrow> Inl UnicodeEncodeError
              | Some b \<Rightarrow> Inr (Bytes b))
           else Inr (Text (emit nd))))"

definition OpenAPICodecYaml :: "(node \<Rightarrow> pystr) \<Rightarrow> pystr list \<Rightarrow> codec" where
  "OpenAPICodecYaml emit vs =
     \<lparr>validators = vs, dump_dict = (\<lambda>h spec. yaml_sane_dump emit h spec True)\<rparr>"


subsection \<open>Sample validators\<close>

text \<open>
  Two validators to run the properties on. The first does what the comment in
  \<^verbatim>\<open>encode\<close> says \<^verbatim>\<open>swagger_spec_validator\<close> does, it writes an \<^verbatim>\<open>x-scope\<close> entry into the
  mapping it is given, and then rejects the spec with the given message; the second
  accepts every spec.
\<close>

definition annotating_validator :: "pystr \<Rightarrow> validator" where
  "annotating_validator msg e spec h =
     (case spec of
        Ref a \<Rightarrow>
          (if a < length h then
             (case h ! a of
                PyODict its \<Rightarrow>
                  (h[a := PyODict (dict_set its (u ''x-scope'') VNone)],
                   Inl (SwaggerValidationError msg None None))
              | PyList vs \<Rightarrow> (h, Inl (SwaggerValidationError msg None None)))
           else (h, Inl (SwaggerValidationError msg None None)))
      | _ \<Rightarrow> (h, Inl (SwaggerValidationError msg None None)))"

definition accepting_validator :: validator where
  "accepting_validator e spec h = (h, Inr ())"

definition sample_table :: "pystr \<rightharpoonup> validator" where
  "sample_table =
     [u ''one'' \<mapsto> annotating_validator (u ''no paths''),
      u ''two'' \<mapsto> accepting_validator,
      u ''three'' \<mapsto> annotating_validator (u ''no info'')]"

text \<open>A sample conversion result and the state before the first call.\<close>

definition sample_as_odict :: "unit \<Rightarrow> (pystr \<times> doc) list" where
  "sample_as_odict x = [(u ''swagger'', DStr (u ''2.0''))]"

definition initial_state :: state where
  "initial_state = \<lparr>mem = [], calls = [], warnings = []\<rparr>"

text \<open>
  The object graph of \<^verbatim>\<open>{"a": 1, "b": [1, 2]}\<close>; an engine that rejects every spec, and
  an environment where it is installed as \<^verbatim>\<open>flex\<close>.
\<close>

definition sample_heap :: heap where
  "sample_heap = [PyList [VInt 1, VInt 2], PyODict [(u ''a'', VInt 1), (u ''b'', Ref 0)]]"

definition rejecting_engine :: engine where
  "rejecting_engine spec h = (h, Rejected (u ''invalid''))"

definition flex_installed :: env where
  "flex_installed =
     \<lparr>flex_core_parse = Some rejecting_engine, ssv_validate_spec = None,
      isprintable = (\<lambda>c. True)\<rparr>"

subsection \<open>Notions the properties are stated with\<close>

text \<open>
  What a validator is allowed to do to the heap: allocate, and change objects reachable
  from its argument. Every other object that existed before the call is as it was.
\<close>

definition mutates_only_argument :: "(val \<Rightarrow> heap \<Rightarrow> heap \<times> 'r) \<Rightarrow> bool" where
  "mutates_only_argument f =
     (\<forall>x h. length h \<le> length (fst (f x h)) \<and>
            (\<forall>a. a < length h \<and> \<not> reach h x a \<longrightarrow> fst (f x h) ! a = h ! a))"

text \<open>A validator that only returns or raises \<^verbatim>\<open>SwaggerValidationError\<close>.\<close>

definition raises_only_validation_errors :: "(val \<Rightarrow> heap \<Rightarrow> heap \<times> (exn + unit)) \<Rightarrow> bool" where
  "raises_only_validation_errors f =
     (\<forall>x h ex. snd (f x h) = Inl ex \<longrightarrow> caught_message ex \<noteq> None)"

text \<open>The cells from address \<open>n\<close> on refer only to cells from \<open>n\<close> on.\<close>

definition closed_from :: "nat \<Rightarrow> heap \<Rightarrow> bool" where
  "closed_from n h =
     (\<forall>a. n \<le> a \<and> a < length h \<longrightarrow> (\<forall>c \<in> set (children (h ! a)). n \<le> c \<and> c < length h))"

text \<open>
  The calls of a call record that raised \<^verbatim>\<open>SwaggerValidationError\<close>, with their messages, in
  call order; and the store into \<^verbatim>\<open>errors\<close> one of them causes.
\<close>

fun failures :: "(pystr \<times> val \<times> (exn + unit)) list \<Rightarrow> (pystr \<times> pystr) list" where
  "failures [] = []"
| "failures (c # cs) =
     (case snd (snd c) of
        Inr _ \<Rightarrow> failures cs
      | Inl ex \<Rightarrow>
          (case caught_message ex of
             None \<Rightarrow> failures cs
           | Some msg \<Rightarrow> (fst c, msg) # failures cs))"

definition record_failure :: "(pystr \<times> pystr) list \<Rightarrow> pystr \<times> pystr \<Rightarrow> (pystr \<times> pystr) list" where
  "record_failure errors km = dict_set errors (fst km) (snd km)"

text \<open>
  What the validator loop did, read off its call record \<open>cs\<close> and its result \<open>r\<close>: each
  argument is an object allocated after the heap \<open>h1\<close> was, each recorded outcome is the
  named validator's outcome on that argument, and the loop either ran all names and
  collected the failures, or stopped at a missing name, or stopped at the call that raised
  something else.
\<close>

definition loop_outcome ::
  "(pystr \<rightharpoonup> validator) \<Rightarrow> env \<Rightarrow> heap \<Rightarrow> pystr list \<Rightarrow> (pystr \<times> pystr) list
     \<Rightarrow> (pystr \<times> val \<times> (exn + unit)) list \<Rightarrow> (exn + (pystr \<times> pystr) list) \<Rightarrow> bool"
where
  "loop_outcome table e h1 names errors cs r =
     ((\<forall>c \<in> set cs. (\<forall>a. fst (snd c) = Ref a \<longrightarrow> length h1 \<le> a) \<and>
                     (\<exists>f h. table (fst c) = Some f \<and> snd (snd c) = snd (f e (fst (snd c)) h))) \<and>
      (case r of
         Inr errs \<Rightarrow> map fst cs = names \<and> errs = foldl record_failure errors (failures cs)
       | Inl ex \<Rightarrow>
           (\<exists>rest. names = map fst cs @ rest \<and> rest \<noteq> [] \<and>
                   ex = KeyError (hd rest) \<and> table (hd rest) = None) \<or>
           (cs \<noteq> [] \<and> snd (snd (last cs)) = Inl ex \<and> caught_message ex = None \<and>
              (\<exists>rest. names = map fst cs @ rest))))"

text \<open>The text of one item of a JSON object.\<close>

definition json_item :: "json_encoder \<Rightarrow> nat \<Rightarrow> pystr \<times> doc \<Rightarrow> pystr" where
  "json_item enc level kv =
     encode_basestring (fst kv) @ key_separator enc @ iterencode enc level (snd kv)"


text \<open>
  The node tree with the shape and the order of a document value: one node per value, the
  pairs of a mapping in the mapping's order.
\<close>

fun node_of :: "bool option \<Rightarrow> doc \<Rightarrow> node" where
  "node_of dfs (DStr s) = represent_text s"
| "node_of dfs (DInt i) = represent_scalar (u ''tag:yaml.org,2002:int'') (int_str i) None"
| "node_of dfs (DBool b) =
     represent_scalar (u ''tag:yaml.org,2002:bool'') (if b then u ''true'' else u ''false'') None"
| "node_of dfs DNull = represent_scalar (u ''tag:yaml.org,2002:null'') (u ''null'') None"
| "node_of dfs (DList ds) =
     SequenceNode (u ''tag:yaml.org,2002:seq'') (map (node_of dfs) ds)
       (flow_style_of dfs (list_all plain_scalar (map (node_of dfs) ds)))"
| "node_of dfs (DMap kvs) =
     MappingNode YAML_MAP_TAG (map (\<lambda>kv. (represent_text (fst kv), node_of dfs (snd kv))) kvs)
       (flow_style_of dfs
          (list_all (\<lambda>kv. plain_scalar (represent_text (fst kv)) \<and> plain_scalar (node_of dfs (snd kv))) kvs))"

text \<open>The alias nodes of a node tree.\<close>

fun aliases :: "node \<Rightarrow> addr list" where
  "aliases (ScalarNode t v style) = []"
| "aliases (SequenceNode t items fl) = concat (map aliases items)"
| "aliases (MappingNode t pairs fl) = concat (map (\<lambda>kv. aliases (fst kv) @ aliases (snd kv)) pairs)"
| "aliases (AliasNode a) = [a]"

subsection \<open>The YAML loader\<close>

















section \<open>Properties\<close>

subsection \<open>Decimal digits\<close>

lemma dec_less_10 [simp]: "n < 10 \<Longrightarrow> dec n = [48 + n]"
  by (subst dec.simps) simp

lemma dec_digits: "dec n \<noteq> [] \<and> (\<forall>c \<in> set (dec n). 48 \<le> c \<and> c \<le> 57)"
proof (induction n rule: dec.induct)
  case (1 n)
  show ?case
  proof (cases "n < 10")
    case True
    then show ?thesis by simp
  next
    case False
    have m: "n mod 10 < 10" by simp
    have e: "dec n = dec (n div 10) @ [48 + n mod 10]"
      using False by (subst dec.simps) simp
    from 1[OF False] m show ?thesis unfolding e by auto
  qed
qed

subsection \<open>Allocation, reading and reachability\<close>

lemma alloc_extends:
  "alloc d h = (v, h') \<Longrightarrow> prefix h h'"
  "alloc_list ds h = (vs, h') \<Longrightarrow> prefix h h'"
  "alloc_items kvs h = (its, h') \<Longrightarrow> prefix h h'"
proof (induction d h and ds h and kvs h arbitrary: v h' and vs h' and its h' rule: alloc_alloc_list_alloc_items.induct)
  case (5 ds h)
  then show ?case by (auto split: prod.splits simp: prefix_def) 
next
  case (6 kvs h)
  then show ?case by (auto split: prod.splits simp: prefix_def) 
next
  case (8 d ds h)
  then show ?case by (auto split: prod.splits) (meson prefix_order.trans)
next
  case (10 kd kvs h)
  then show ?case by (auto split: prod.splits) (meson prefix_order.trans)
qed auto

lemma read_alloc:
  "alloc d h = (v, h') \<Longrightarrow> length h' \<le> length h + n \<Longrightarrow> prefix h' H \<Longrightarrow> read n H v = Some d"
  "alloc_list ds h = (vs, h') \<Longrightarrow> length h' \<le> length h + n \<Longrightarrow> prefix h' H \<Longrightarrow> read_list n H vs = Some ds"
  "alloc_items kvs h = (its, h') \<Longrightarrow> length h' \<le> length h + n \<Longrightarrow> prefix h' H \<Longrightarrow> read_items n H its = Some kvs"
proof (induction d h and ds h and kvs h arbitrary: v h' n H and vs h' n H and its h' n H rule: alloc_alloc_list_alloc_items.induct)
  case (5 ds h)
  obtain vs h1 where a: "alloc_list ds h = (vs, h1)" by force
  with 5 have v: "v = Ref (length h1)" and h': "h' = h1 @ [PyList vs]" by auto
  have "length h \<le> length h1" using alloc_extends(2)[OF a] by (simp add: prefix_length_le)
  with 5(3) h' obtain m where n: "n = Suc m" and m: "length h1 \<le> length h + m"
    by (cases n) auto
  have p1: "prefix h1 H" using 5(4) h' by (metis append_prefixD)
  have cell: "length h1 < length H \<and> H ! length h1 = PyList vs"
    using 5(4) h' by (auto simp: prefix_def)
  have "read_list m H vs = Some ds" using 5(1)[OF a m p1] .
  then show ?case using v n cell by simp
next
  case (6 kvs h)
  obtain its h1 where a: "alloc_items kvs h = (its, h1)" by force
  with 6 have v: "v = Ref (length h1)" and h': "h' = h1 @ [PyODict its]" by auto
  have "length h \<le> length h1" using alloc_extends(3)[OF a] by (simp add: prefix_length_le)
  with 6(3) h' obtain m where n: "n = Suc m" and m: "length h1 \<le> length h + m"
    by (cases n) auto
  have p1: "prefix h1 H" using 6(4) h' by (metis append_prefixD)
  have cell: "length h1 < length H \<and> H ! length h1 = PyODict its"
    using 6(4) h' by (auto simp: prefix_def)
  have "read_items m H its = Some kvs" using 6(1)[OF a m p1] .
  then show ?case using v n cell by simp
next
  case (8 d ds h)
  obtain v1 h1 where a1: "alloc d h = (v1, h1)" by force
  obtain vs2 h2 where a2: "alloc_list ds h1 = (vs2, h2)" by force
  from 8(3) a1 a2 have vs: "vs = v1 # vs2" and h': "h' = h2" by auto
  have l1: "length h \<le> length h1" using alloc_extends(1)[OF a1] by (simp add: prefix_length_le)
  have l2: "length h1 \<le> length h2" using alloc_extends(2)[OF a2] by (simp add: prefix_length_le)
  have p12: "prefix h1 h2" using alloc_extends(2)[OF a2] .
  have r1: "read n H v1 = Some d"
    using 8(1)[OF a1, of n H] l2 8(4) 8(5) h' p12 by (meson le_trans prefix_order.trans)
  have r2: "read_list n H vs2 = Some ds"
    using 8(2)[OF a1[symmetric] a2, of n H] l1 8(4) 8(5) h' by auto
  show ?case using r1 r2 vs by simp
next
  case (10 kd kvs h)
  obtain v1 h1 where a1: "alloc (snd kd) h = (v1, h1)" by force
  obtain its2 h2 where a2: "alloc_items kvs h1 = (its2, h2)" by force
  from 10(3) a1 a2 have its: "its = (fst kd, v1) # its2" and h': "h' = h2" by auto
  have l1: "length h \<le> length h1" using alloc_extends(1)[OF a1] by (simp add: prefix_length_le)
  have l2: "length h1 \<le> length h2" using alloc_extends(3)[OF a2] by (simp add: prefix_length_le)
  have p12: "prefix h1 h2" using alloc_extends(3)[OF a2] .
  have r1: "read n H v1 = Some (snd kd)"
    using 10(1)[OF a1, of n H] l2 10(4) 10(5) h' p12 by (meson le_trans prefix_order.trans)
  have r2: "read_items n H its2 = Some kvs"
    using 10(2)[OF a1[symmetric] a2, of n H] l1 10(4) 10(5) h' by auto
  show ?case using r1 r2 its by simp
qed auto

lemma closed_fromI:
  "(\<And>a c. n \<le> a \<Longrightarrow> a < length h \<Longrightarrow> c \<in> set (children (h ! a)) \<Longrightarrow> n \<le> c \<and> c < length h)
     \<Longrightarrow> closed_from n h"
  unfolding closed_from_def by blast

lemma closed_fromD:
  "closed_from n h \<Longrightarrow> n \<le> a \<Longrightarrow> a < length h \<Longrightarrow> c \<in> set (children (h ! a)) \<Longrightarrow> n \<le> c \<and> c < length h"
  unfolding closed_from_def by blast

lemma closed_from_extend:
  assumes c1: "closed_from n h1" and p: "prefix h1 h2" and c2: "closed_from (length h1) h2"
    and l: "n \<le> length h1"
  shows "closed_from n h2"
proof (rule closed_fromI)
  fix a c assume a: "n \<le> a" "a < length h2" and c: "c \<in> set (children (h2 ! a))"
  have len: "length h1 \<le> length h2" using p by (simp add: prefix_length_le)
  show "n \<le> c \<and> c < length h2"
  proof (cases "a < length h1")
    case True
    then have "h2 ! a = h1 ! a" using p by (auto simp: prefix_def nth_append)
    with c have "c \<in> set (children (h1 ! a))" by simp
    from closed_fromD[OF c1 a(1) True this] len show ?thesis by simp
  next
    case False
    then have "length h1 \<le> a" by simp
    from closed_fromD[OF c2 this a(2) c] l show ?thesis by simp
  qed
qed

lemma closed_from_snoc:
  assumes c1: "closed_from n h1" and l: "n \<le> length h1"
    and r: "\<forall>c \<in> set (children ob). n \<le> c \<and> c < length h1"
  shows "closed_from n (h1 @ [ob])"
proof (rule closed_fromI)
  fix a c assume a: "n \<le> a" "a < length (h1 @ [ob])" and c: "c \<in> set (children ((h1 @ [ob]) ! a))"
  show "n \<le> c \<and> c < length (h1 @ [ob])"
  proof (cases "a < length h1")
    case True
    with c have "c \<in> set (children (h1 ! a))" by (simp add: nth_append)
    from closed_fromD[OF c1 a(1) True this] show ?thesis by simp
  next
    case False
    with a have "a = length h1" by simp
    with c have "c \<in> set (children ob)" by simp
    with r have "n \<le> c \<and> c < length h1" by blast
    then show ?thesis by simp
  qed
qed

lemma closed_from_self: "closed_from (length h) h"
  by (simp add: closed_from_def)

lemma refs_of_Cons:
  "set (refs_of (v # vs)) = (case v of Ref a \<Rightarrow> {a} | _ \<Rightarrow> {}) \<union> set (refs_of vs)"
  by (cases v) simp_all

lemma alloc_step_closed:
  assumes c1: "closed_from n h1" and r1: "\<forall>a. v1 = Ref a \<longrightarrow> n \<le> a \<and> a < length h1"
    and c2: "closed_from (length h1) h2" and r2: "\<forall>a \<in> set (refs_of vs2). length h1 \<le> a \<and> a < length h2"
    and p: "prefix h1 h2" and l: "n \<le> length h1"
  shows "closed_from n h2 \<and> (\<forall>a \<in> set (refs_of (v1 # vs2)). n \<le> a \<and> a < length h2)"
proof
  show "closed_from n h2" using closed_from_extend[OF c1 p c2 l] .
  have l2: "length h1 \<le> length h2" using p by (simp add: prefix_length_le)
  show "\<forall>a \<in> set (refs_of (v1 # vs2)). n \<le> a \<and> a < length h2"
  proof
    fix a assume a: "a \<in> set (refs_of (v1 # vs2))"
    then consider "v1 = Ref a" | "a \<in> set (refs_of vs2)"
      by (cases v1) auto
    then show "n \<le> a \<and> a < length h2"
    proof cases
      case 1
      with r1 have "n \<le> a \<and> a < length h1" by simp
      with l2 show ?thesis by simp
    next
      case 2
      with r2 have "length h1 \<le> a \<and> a < length h2" by simp
      with l show ?thesis by simp
    qed
  qed
qed

lemma alloc_root_closed:
  assumes c1: "closed_from n h1" and r1: "\<forall>c \<in> set (children ob). n \<le> c \<and> c < length h1"
    and l: "n \<le> length h1"
  shows "closed_from n (h1 @ [ob]) \<and> (\<forall>a. Ref (length h1) = Ref a \<longrightarrow> n \<le> a \<and> a < length (h1 @ [ob]))"
  using closed_from_snoc[OF c1 l r1] l by simp

lemma alloc_closed:
  "alloc d h = (v, h') \<Longrightarrow> closed_from (length h) h' \<and> (\<forall>a. v = Ref a \<longrightarrow> length h \<le> a \<and> a < length h')"
  "alloc_list ds h = (vs, h') \<Longrightarrow> closed_from (length h) h' \<and> (\<forall>a \<in> set (refs_of vs). length h \<le> a \<and> a < length h')"
  "alloc_items kvs h = (its, h') \<Longrightarrow> closed_from (length h) h' \<and> (\<forall>a \<in> set (refs_of (map snd its)). length h \<le> a \<and> a < length h')"
proof (induction d h and ds h and kvs h arbitrary: v h' and vs h' and its h' rule: alloc_alloc_list_alloc_items.induct)
  case (1 s h)
  then show ?case by (auto simp: closed_from_self)
next
  case (2 i h)
  then show ?case by (auto simp: closed_from_self)
next
  case (3 b h)
  then show ?case by (auto simp: closed_from_self)
next
  case (4 h)
  then show ?case by (auto simp: closed_from_self)
next
  case (5 ds h)
  obtain vs h1 where a: "alloc_list ds h = (vs, h1)" by force
  with 5(2) have v: "v = Ref (length h1)" and h': "h' = h1 @ [PyList vs]" by simp_all
  have l: "length h \<le> length h1" using alloc_extends(2)[OF a] by (simp add: prefix_length_le)
  have i: "closed_from (length h) h1" "\<forall>a \<in> set (refs_of vs). length h \<le> a \<and> a < length h1"
    using 5(1)[OF a] by simp_all
  have "\<forall>c \<in> set (children (PyList vs)). length h \<le> c \<and> c < length h1" using i(2) by simp
  from alloc_root_closed[OF i(1) this l] show ?case unfolding v h' .
next
  case (6 kvs h)
  obtain its h1 where a: "alloc_items kvs h = (its, h1)" by force
  with 6(2) have v: "v = Ref (length h1)" and h': "h' = h1 @ [PyODict its]" by simp_all
  have l: "length h \<le> length h1" using alloc_extends(3)[OF a] by (simp add: prefix_length_le)
  have i: "closed_from (length h) h1" "\<forall>a \<in> set (refs_of (map snd its)). length h \<le> a \<and> a < length h1"
    using 6(1)[OF a] by simp_all
  have "\<forall>c \<in> set (children (PyODict its)). length h \<le> c \<and> c < length h1" using i(2) by simp
  from alloc_root_closed[OF i(1) this l] show ?case unfolding v h' .
next
  case (7 h)
  then show ?case by (auto simp: closed_from_self)
next
  case (8 d ds h)
  obtain v1 h1 where a1: "alloc d h = (v1, h1)" by force
  obtain vs2 h2 where a2: "alloc_list ds h1 = (vs2, h2)" by force
  from 8(3) a1 a2 have vs: "vs = v1 # vs2" and h': "h' = h2" by simp_all
  have l1: "length h \<le> length h1" using alloc_extends(1)[OF a1] by (simp add: prefix_length_le)
  have i1: "closed_from (length h) h1" "\<forall>a. v1 = Ref a \<longrightarrow> length h \<le> a \<and> a < length h1"
    using 8(1)[OF a1] by simp_all
  have i2: "closed_from (length h1) h2" "\<forall>a \<in> set (refs_of vs2). length h1 \<le> a \<and> a < length h2"
    using 8(2)[OF a1[symmetric] a2] by simp_all
  from alloc_step_closed[OF i1 i2 alloc_extends(2)[OF a2] l1] show ?case unfolding vs h' .
next
  case (9 h)
  then show ?case by (auto simp: closed_from_self)
next
  case (10 kd kvs h)
  obtain v1 h1 where a1: "alloc (snd kd) h = (v1, h1)" by force
  obtain its2 h2 where a2: "alloc_items kvs h1 = (its2, h2)" by force
  from 10(3) a1 a2 have its: "its = (fst kd, v1) # its2" and h': "h' = h2" by simp_all
  have l1: "length h \<le> length h1" using alloc_extends(1)[OF a1] by (simp add: prefix_length_le)
  have i1: "closed_from (length h) h1" "\<forall>a. v1 = Ref a \<longrightarrow> length h \<le> a \<and> a < length h1"
    using 10(1)[OF a1] by simp_all
  have i2: "closed_from (length h1) h2" "\<forall>a \<in> set (refs_of (map snd its2)). length h1 \<le> a \<and> a < length h2"
    using 10(2)[OF a1[symmetric] a2] by simp_all
  from alloc_step_closed[OF i1 i2 alloc_extends(3)[OF a2] l1]
  show ?case unfolding its h' by simp
qed

lemma reach_closed:
  assumes "reach h v c" "closed_from n h" "\<forall>a. v = Ref a \<longrightarrow> n \<le> a \<and> a < length h"
  shows "n \<le> c \<and> c < length h"
  using assms
proof (induction rule: reach.induct)
  case (reach_root a)
  then show ?case by simp
next
  case (reach_step v a c)
  then have "n \<le> a \<and> a < length h" by simp
  then show ?case using closed_fromD[OF reach_step(5) _ _ reach_step(3)] by simp
qed

lemma reach_alloc:
  "alloc d h = (v, h') \<Longrightarrow> reach h' v c \<Longrightarrow> length h \<le> c \<and> c < length h'"
  using alloc_closed(1)[of d h v h'] reach_closed[of h' v c "length h"] by simp

lemma prefix_nthI:
  "length xs \<le> length ys \<Longrightarrow> (\<forall>i < length xs. ys ! i = xs ! i) \<Longrightarrow> prefix xs ys"
proof -
  assume l: "length xs \<le> length ys" and e: "\<forall>i < length xs. ys ! i = xs ! i"
  have "xs = take (length xs) ys"
    by (rule nth_equalityI) (use l e in auto)
  then show ?thesis by (metis take_is_prefix)
qed

lemma call_on_copy_keeps:
  assumes fr: "mutates_only_argument f" and al: "alloc d h = (c, h1)"
  shows "prefix h (fst (f c h1))"
proof (rule prefix_nthI)
  have p: "prefix h h1" using alloc_extends(1)[OF al] .
  then have l: "length h \<le> length h1" by (simp add: prefix_length_le)
  from fr have l2: "length h1 \<le> length (fst (f c h1))" by (simp add: mutates_only_argument_def)
  show "length h \<le> length (fst (f c h1))" using l l2 by simp
  show "\<forall>i<length h. fst (f c h1) ! i = h ! i"
  proof (intro allI impI)
    fix i assume i: "i < length h"
    then have "\<not> reach h1 c i" using reach_alloc[OF al] by fastforce
    with fr i l have "fst (f c h1) ! i = h1 ! i" by (simp add: mutates_only_argument_def)
    also have "h1 ! i = h ! i" using p i by (auto simp: prefix_def nth_append)
    finally show "fst (f c h1) ! i = h ! i" .
  qed
qed

lemma deref_alloc:
  assumes "alloc d h0 = (v, h1)" "prefix h1 H"
  shows "deref H v = Some d"
  unfolding deref_def
  using read_alloc(1)[OF assms(1) _ assms(2), of "length H"] assms(2)
  by (simp add: prefix_length_le trans_le_add2)

lemma deepcopy_alloc:
  assumes "alloc d h0 = (spec, h1)" "prefix h1 h"
  shows "deepcopy h spec = Some (alloc d h)"
  using deref_alloc[OF assms] by (simp add: deepcopy_def)

subsection \<open>The validator loop\<close>

lemma failures_Cons_append: "failures (c # cs) = failures [c] @ failures cs"
  by (auto split: sum.splits option.splits)

lemma loop_outcome_Nil: "loop_outcome table e h1 [] errors [] (Inr errors)"
  by (simp add: loop_outcome_def)

lemma loop_outcome_KeyError:
  "table name = None \<Longrightarrow> loop_outcome table e h1 (name # names) errors [] (Inl (KeyError name))"
  by (simp add: loop_outcome_def)

lemma loop_outcome_fatal:
  assumes "\<forall>a. copy = Ref a \<longrightarrow> length h1 \<le> a" "table name = Some f" "snd (f e copy h) = Inl ex"
    "caught_message ex = None"
  shows "loop_outcome table e h1 (name # names) errors [(name, copy, Inl ex)] (Inl ex)"
  unfolding loop_outcome_def using assms by (auto intro: exI[of _ h])

lemma loop_outcome_Cons:
  assumes lo: "loop_outcome table e h1 names errors1 cs r'"
    and fresh: "\<forall>a. copy = Ref a \<longrightarrow> length h1 \<le> a" and tab: "table name = Some f"
    and call: "snd (f e copy h) = r"
    and e1: "errors1 = foldl record_failure errors (failures [(name, copy, r)])"
  shows "loop_outcome table e h1 (name # names) errors ((name, copy, r) # cs) r'"
proof -
  have each: "\<forall>c \<in> set ((name, copy, r) # cs).
      (\<forall>a. fst (snd c) = Ref a \<longrightarrow> length h1 \<le> a) \<and>
      (\<exists>f h. table (fst c) = Some f \<and> snd (snd c) = snd (f e (fst (snd c)) h))"
  proof
    fix c assume "c \<in> set ((name, copy, r) # cs)"
    then consider "c = (name, copy, r)" | "c \<in> set cs" by auto
    then show "(\<forall>a. fst (snd c) = Ref a \<longrightarrow> length h1 \<le> a) \<and>
      (\<exists>f h. table (fst c) = Some f \<and> snd (snd c) = snd (f e (fst (snd c)) h))"
    proof cases
      case 1
      then show ?thesis using fresh tab call by (auto intro: exI[of _ h])
    next
      case 2
      then show ?thesis using lo unfolding loop_outcome_def by blast
    qed
  qed
  show ?thesis
  proof (cases r')
    case (Inr errs)
    with lo have "map fst cs = names" "errs = foldl record_failure errors1 (failures cs)"
      by (simp_all add: loop_outcome_def)
    then have "map fst ((name, copy, r) # cs) = name # names \<and>
               errs = foldl record_failure errors (failures ((name, copy, r) # cs))"
      unfolding failures_Cons_append[of "(name, copy, r)" cs] by (simp add: e1)
    with each Inr show ?thesis unfolding loop_outcome_def by simp
  next
    case (Inl ex)
    with lo consider
      (k) rest where "names = map fst cs @ rest" "rest \<noteq> []" "ex = KeyError (hd rest)" "table (hd rest) = None"
      | (c) rest where "cs \<noteq> []" "snd (snd (last cs)) = Inl ex" "caught_message ex = None" "names = map fst cs @ rest"
      unfolding loop_outcome_def by auto
    then have "(\<exists>rest. name # names = map fst ((name, copy, r) # cs) @ rest \<and> rest \<noteq> [] \<and>
                   ex = KeyError (hd rest) \<and> table (hd rest) = None) \<or>
           ((name, copy, r) # cs \<noteq> [] \<and> snd (snd (last ((name, copy, r) # cs))) = Inl ex \<and>
              caught_message ex = None \<and>
              (\<exists>rest. name # names = map fst ((name, copy, r) # cs) @ rest))"
    proof cases
      case k
      then show ?thesis by auto
    next
      case c
      then show ?thesis by auto
    qed
    with each Inl show ?thesis unfolding loop_outcome_def by simp
  qed
qed

lemma run_validators_general:
  assumes al: "alloc d h0 = (spec, h1)"
    and fr: "\<forall>name \<in> set names. \<forall>f. table name = Some f \<longrightarrow> mutates_only_argument (f e)"
    and pre: "prefix h1 (mem st)"
  shows "\<exists>st' r cs.
           run_validators table e names spec errors st = Some (st', r) \<and>
           prefix h1 (mem st') \<and>
           calls st' = calls st @ cs \<and>
           warnings st' = warnings st \<and>
           loop_outcome table e h1 names errors cs r"
  using fr pre
proof (induction names arbitrary: errors st)
  case Nil
  show ?case
    by (rule exI[of _ st], rule exI[of _ "Inr errors"], rule exI[of _ "[]"])
       (use Nil in \<open>simp add: loop_outcome_Nil\<close>)
next
  case (Cons name names)
  show ?case
  proof (cases "table name")
    case None
    show ?thesis
      by (rule exI[of _ st], rule exI[of _ "Inl (KeyError name)"], rule exI[of _ "[]"])
         (use None Cons.prems in \<open>simp add: loop_outcome_KeyError\<close>)
  next
    case (Some f)
    have frf: "mutates_only_argument (f e)" using Cons.prems(1) Some by simp
    obtain copy hc where ac: "alloc d (mem st) = (copy, hc)" by force
    have dc: "deepcopy (mem st) spec = Some (copy, hc)"
      using deepcopy_alloc[OF al Cons.prems(2)] ac by simp
    obtain h2 r where call: "f e copy hc = (h2, r)" by force
    define st1 where "st1 = st\<lparr>mem := h2, calls := calls st @ [(name, copy, r)]\<rparr>"
    have p2: "prefix (mem st) h2" using call_on_copy_keeps[OF frf ac] call by simp
    have p12: "prefix h1 (mem st1)" using Cons.prems(2) p2 by (simp add: st1_def)
    have l1: "length h1 \<le> length (mem st)" using Cons.prems(2) by (simp add: prefix_length_le)
    have fresh: "\<forall>a. copy = Ref a \<longrightarrow> length h1 \<le> a"
      using alloc_closed(1)[OF ac] l1 by auto
    have sndcall: "snd (f e copy hc) = r" using call by simp
    have fr': "\<forall>name \<in> set names. \<forall>f. table name = Some f \<longrightarrow> mutates_only_argument (f e)"
      using Cons.prems(1) by simp
    show ?thesis
    proof (cases "case r of Inr _ \<Rightarrow> True | Inl ex \<Rightarrow> caught_message ex \<noteq> None")
      case True
      define errors1 where
        "errors1 = (case r of Inr _ \<Rightarrow> errors | Inl ex \<Rightarrow> dict_set errors name (the (caught_message ex)))"
      have step: "run_validators table e (name # names) spec errors st =
                  run_validators table e names spec errors1 st1"
        using Some dc call True by (auto simp: st1_def errors1_def Let_def split: sum.splits)
      have e1: "errors1 = foldl record_failure errors (failures [(name, copy, r)])"
        using True by (auto simp: errors1_def record_failure_def split: sum.splits)
      from Cons.IH[OF fr' p12, of errors1] obtain st' r' cs where
        run: "run_validators table e names spec errors1 st1 = Some (st', r')" and
        pf: "prefix h1 (mem st')" and
        cl: "calls st' = calls st1 @ cs" and
        w: "warnings st' = warnings st1" and
        lo: "loop_outcome table e h1 names errors1 cs r'"
        by blast
      have lo': "loop_outcome table e h1 (name # names) errors ((name, copy, r) # cs) r'"
        using lo fresh Some sndcall e1 by (rule loop_outcome_Cons)
      show ?thesis
        by (rule exI[of _ st'], rule exI[of _ r'], rule exI[of _ "(name, copy, r) # cs"])
           (use step run pf cl w lo' in \<open>simp add: st1_def\<close>)
    next
      case False
      then obtain ex where r: "r = Inl ex" and nc: "caught_message ex = None"
        by (auto split: sum.splits)
      have step: "run_validators table e (name # names) spec errors st = Some (st1, Inl ex)"
        using Some dc call r nc by (simp add: st1_def Let_def)
      have sc: "snd (f e copy hc) = Inl ex" using call r by simp
      have lo: "loop_outcome table e h1 (name # names) errors [(name, copy, Inl ex)] (Inl ex)"
        using fresh Some sc nc by (rule loop_outcome_fatal)
      show ?thesis
        by (rule exI[of _ st1], rule exI[of _ "Inl ex"], rule exI[of _ "[(name, copy, r)]"])
           (use step p12 lo r in \<open>simp add: st1_def\<close>)
    qed
  qed
qed

subsection \<open>\<^verbatim>\<open>encode\<close>\<close>


lemma encode_unfold:
  assumes g: "generate_swagger_object as_odict sw (mem st) = (spec, h1)"
    and run: "run_validators table e (validators self) spec [] (st\<lparr>mem := h1\<rparr>) = Some (st1, r)"
  shows "encode table e as_odict self (Swagger sw) st =
           Some (case r of
                   Inl ex \<Rightarrow> (st1, Inl ex)
                 | Inr errors \<Rightarrow>
                     if errors \<noteq> [] then
                       (st1\<lparr>warnings := warnings st1 @ [failure_message (isprintable e) errors]\<rparr>,
                        Inl (SwaggerValidationError (failure_message (isprintable e) errors)
                               (Some errors) (Some spec)))
                     else (st1, encode_error self (mem st1) spec))"
  using g run by (simp add: encode_def Let_def split: sum.splits)




lemma annotating_validator_frame: "mutates_only_argument (annotating_validator msg e)"
  unfolding mutates_only_argument_def
proof (intro allI conjI impI)
  fix x h
  show "length h \<le> length (fst (annotating_validator msg e x h))"
    by (simp add: annotating_validator_def split: val.splits obj.splits)
next
  fix x h a
  assume a: "a < length h \<and> \<not> reach h x a"
  show "fst (annotating_validator msg e x h) ! a = h ! a"
  proof (cases x)
    case (Ref b)
    with a have "b \<noteq> a" using reach_root[of h a] by auto
    then show ?thesis using Ref
      by (simp add: annotating_validator_def split: obj.splits)
  qed (simp_all add: annotating_validator_def)
qed

lemma accepting_validator_frame: "mutates_only_argument (accepting_validator e)"
  by (simp add: mutates_only_argument_def accepting_validator_def)




subsection \<open>The error mapping and its text\<close>











lemma concat_map_single: "(\<forall>c \<in> set s. f c = [c]) \<Longrightarrow> concat (map f s) = s"
  by (induction s) auto




lemma loop_outcome_well_behaved:
  assumes lo: "loop_outcome table e h1 names errors cs r"
    and wb: "\<forall>name \<in> set names. \<exists>f. table name = Some f \<and> raises_only_validation_errors (f e)"
  shows "map fst cs = names \<and> r = Inr (foldl record_failure errors (failures cs))"
proof (cases r)
  case (Inr errs)
  with lo show ?thesis by (simp add: loop_outcome_def)
next
  case (Inl ex)
  with lo consider
    (k) rest where "names = map fst cs @ rest" "rest \<noteq> []" "table (hd rest) = None"
    | (c) rest where "cs \<noteq> []" "snd (snd (last cs)) = Inl ex" "caught_message ex = None"
        "names = map fst cs @ rest"
    unfolding loop_outcome_def by auto
  then show ?thesis
  proof cases
    case k
    then have "hd rest \<in> set names" by simp
    with wb k(3) show ?thesis by fastforce
  next
    case c
    let ?c = "last cs"
    have in_cs: "?c \<in> set cs" using c(1) by simp
    with lo obtain f h where f: "table (fst ?c) = Some f"
      and out: "snd (snd ?c) = snd (f e (fst (snd ?c)) h)"
      unfolding loop_outcome_def by blast
    have "fst ?c \<in> set names" using in_cs c(4) by auto
    with wb f have "raises_only_validation_errors (f e)" by fastforce
    with out c(2) have "caught_message ex \<noteq> None"
      unfolding raises_only_validation_errors_def by metis
    with c(3) show ?thesis by simp
  qed
qed


lemma annotating_validator_raises:
  "raises_only_validation_errors (annotating_validator msg e)"
  by (auto simp: raises_only_validation_errors_def annotating_validator_def
      split: val.splits obj.splits if_splits)

lemma accepting_validator_raises: "raises_only_validation_errors (accepting_validator e)"
  by (simp add: raises_only_validation_errors_def accepting_validator_def)

lemma sample_table_well_behaved:
  "name \<in> {u ''one'', u ''two'', u ''three''} \<Longrightarrow>
     \<exists>f. sample_table name = Some f \<and> mutates_only_argument (f e) \<and>
         raises_only_validation_errors (f e)"
  by (auto simp: sample_table_def u_def annotating_validator_frame accepting_validator_frame
        annotating_validator_raises accepting_validator_raises)



lemma run_validators_append:
  "run_validators table e (xs @ ys) spec errors st =
     (case run_validators table e xs spec errors st of
        None \<Rightarrow> None
      | Some (st1, Inl ex) \<Rightarrow> Some (st1, Inl ex)
      | Some (st1, Inr errs) \<Rightarrow> run_validators table e ys spec errs st1)"
proof (induction xs arbitrary: errors st)
  case Nil
  show ?case by simp
next
  case (Cons x xs)
  show ?case
  proof (cases "table x")
    case None
    then show ?thesis by simp
  next
    case (Some f)
    show ?thesis
    proof (cases "deepcopy (mem st) spec")
      case None
      with Some show ?thesis by simp
    next
      case dc: (Some ch)
      obtain copy hc where ch: "ch = (copy, hc)" by (cases ch)
      obtain h2 r where call: "f e copy hc = (h2, r)" by force
      show ?thesis
      proof (cases r)
        case (Inr x2)
        then show ?thesis using Some dc ch call Cons by (simp add: Let_def)
      next
        case (Inl ex)
        then show ?thesis using Some dc ch call Cons
          by (cases "caught_message ex") (simp_all add: Let_def)
      qed
    qed
  qed
qed

text \<open>
  Claim C9, as amended. A name that is missing from the table makes the lookup
  \<^verbatim>\<open>VALIDATORS[validator]\<close> raise \<^verbatim>\<open>KeyError\<close>, which \<^verbatim>\<open>encode\<close> does not catch: when the
  validators listed before the first missing name return or raise
  \<^verbatim>\<open>SwaggerValidationError\<close>, \<^verbatim>\<open>encode\<close> of a Swagger document calls exactly those, raises
  \<^verbatim>\<open>KeyError\<close> with the missing name, calls none of the validators listed after it, and
  logs nothing, whatever failures were collected before.
\<close>

theorem encode_unknown_validator:
  assumes vs: "validators self = before @ name # rest"
    and missing: "table name = None"
    and wb: "\<forall>n \<in> set before.
               \<exists>f. table n = Some f \<and> mutates_only_argument (f e) \<and>
                   raises_only_validation_errors (f e)"
    and g: "generate_swagger_object as_odict sw (mem st) = (spec, h1)"
  shows "\<exists>st' cs.
           encode table e as_odict self (Swagger sw) st = Some (st', Inl (KeyError name)) \<and>
           calls st' = calls st @ cs \<and> map fst cs = before \<and> warnings st' = warnings st"
proof -
  have al: "alloc (DMap (as_odict sw)) (mem st) = (spec, h1)"
    using g by (simp add: generate_swagger_object_def)
  have fr: "\<forall>n \<in> set before. \<forall>f. table n = Some f \<longrightarrow> mutates_only_argument (f e)"
    using wb by fastforce
  have ro: "\<forall>n \<in> set before. \<exists>f. table n = Some f \<and> raises_only_validation_errors (f e)"
    using wb by fastforce
  have pre: "prefix h1 (mem (st\<lparr>mem := h1\<rparr>))" by simp
  from run_validators_general[OF al fr pre, of "[]", simplified] obtain st1 r1 cs where
    run: "run_validators table e before spec [] (st\<lparr>mem := h1\<rparr>) = Some (st1, r1)" and
    cl: "calls st1 = calls st @ cs" and w: "warnings st1 = warnings st" and
    lo: "loop_outcome table e h1 before [] cs r1"
    by blast
  from loop_outcome_well_behaved[OF lo ro]
  have names: "map fst cs = before" and r1: "r1 = Inr (foldl record_failure [] (failures cs))"
    by simp_all
  have "run_validators table e (validators self) spec [] (st\<lparr>mem := h1\<rparr>)
          = Some (st1, Inl (KeyError name))"
    unfolding vs run_validators_append run r1 using missing by simp
  from encode_unfold[OF g this]
  have "encode table e as_odict self (Swagger sw) st = Some (st1, Inl (KeyError name))" by simp
  with cl names w show ?thesis by blast
qed

theorem encode_unknown_validator_witness:
  "validators (OpenAPICodec [u ''two'', u ''nope'', u ''one'']) = [u ''two''] @ u ''nope'' # [u ''one''] \<and>
   sample_table (u ''nope'') = None \<and>
   mutates_only_argument (accepting_validator no_engines) \<and>
   raises_only_validation_errors (accepting_validator no_engines) \<and>
   generate_swagger_object sample_as_odict () (mem initial_state)
     = (Ref 0, [PyODict [(u ''swagger'', VStr (u ''2.0''))]]) \<and>
   (\<exists>st'. encode sample_table no_engines sample_as_odict
             (OpenAPICodec [u ''two'', u ''nope'', u ''one'']) (Swagger ()) initial_state
           = Some (st', Inl (KeyError (u ''nope''))) \<and>
         map fst (calls st') = [u ''two''])"
proof -
  have vs: "validators (OpenAPICodec [u ''two'', u ''nope'', u ''one''])
              = [u ''two''] @ u ''nope'' # [u ''one'']"
    by (simp add: OpenAPICodec_def)
  have missing: "sample_table (u ''nope'') = None"
    by (simp add: sample_table_def u_def)
  have wb: "\<forall>n \<in> set [u ''two''].
               \<exists>f. sample_table n = Some f \<and> mutates_only_argument (f no_engines) \<and>
                   raises_only_validation_errors (f no_engines)"
    using sample_table_well_behaved by simp
  have g: "generate_swagger_object sample_as_odict () (mem initial_state)
     = (Ref 0, [PyODict [(u ''swagger'', VStr (u ''2.0''))]])"
    by (simp add: generate_swagger_object_def sample_as_odict_def initial_state_def)
  from encode_unknown_validator[OF vs missing wb g] obtain st' cs where
    "encode sample_table no_engines sample_as_odict
             (OpenAPICodec [u ''two'', u ''nope'', u ''one'']) (Swagger ()) initial_state
           = Some (st', Inl (KeyError (u ''nope'')))"
    "calls st' = calls initial_state @ cs" "map fst cs = [u ''two'']"
    by (elim exE conjE) (rule that; assumption)
  then have "\<exists>st'. encode sample_table no_engines sample_as_odict
             (OpenAPICodec [u ''two'', u ''nope'', u ''one'']) (Swagger ()) initial_state
           = Some (st', Inl (KeyError (u ''nope''))) \<and>
         map fst (calls st') = [u ''two'']"
    by (auto simp: initial_state_def)
  with vs missing g accepting_validator_frame accepting_validator_raises
  show ?thesis by simp
qed

text \<open>
  The claim as first stated fails: with the module's own table, a codec configured with
  the unregistered name \<^verbatim>\<open>nope\<close> raises \<^verbatim>\<open>KeyError\<close>, the only error the lookup has, and
  with \<^verbatim>\<open>ssv\<close> listed before it while \<^verbatim>\<open>swagger_spec_validator\<close> cannot be imported, it
  raises \<^verbatim>\<open>ImportError\<close> and never reaches the unregistered name.
\<close>

theorem encode_unknown_validator_counterexample:
  "encode VALIDATORS no_engines sample_as_odict (OpenAPICodec [u ''nope'']) (Swagger ())
       initial_state
     = Some (\<lparr>mem = [PyODict [(u ''swagger'', VStr (u ''2.0''))]], calls = [], warnings = []\<rparr>,
             Inl (KeyError (u ''nope''))) \<and>
   encode VALIDATORS no_engines sample_as_odict (OpenAPICodec [u ''ssv'', u ''nope'']) (Swagger ())
       initial_state
     = Some (\<lparr>mem = [PyODict [(u ''swagger'', VStr (u ''2.0''))],
                     PyODict [(u ''swagger'', VStr (u ''2.0''))]],
               calls = [(u ''ssv'', Ref 1, Inl (ImportError (u ''swagger_spec_validator'')))],
               warnings = []\<rparr>,
             Inl (ImportError (u ''swagger_spec_validator'')))"
  by (simp add: encode_def generate_swagger_object_def OpenAPICodec_def VALIDATORS_def
        sample_as_odict_def initial_state_def deepcopy_def deref_def
        validate_swagger_spec_validator_def no_engines_def u_def Let_def)

subsection \<open>The YAML representers\<close>

lemma alias_key_of_ignore [simp]: "alias_key_of ignore_aliases v = None"
  by (simp add: alias_key_of_def ignore_aliases_def split: val.splits)

lemma represent_ignoring_aliases:
  "ign = ignore_aliases \<Longrightarrow>
     represent_data ign dfs n h v ro = map_option (\<lambda>d. (node_of dfs d, ro)) (read n h v)"
  "ign = ignore_aliases \<Longrightarrow> ak = None \<Longrightarrow>
     represent_odict ign dfs n h ak mapping ro
       = map_option (\<lambda>kvs. (node_of dfs (DMap kvs), ro)) (read_items n h mapping)"
  "ign = ignore_aliases \<Longrightarrow>
     represent_odict_items ign dfs n h mapping pairs best ro
       = map_option
           (\<lambda>kvs. (pairs @ map (\<lambda>kv. (represent_text (fst kv), node_of dfs (snd kv))) kvs,
                   best \<and> list_all (\<lambda>kv. plain_scalar (represent_text (fst kv)) \<and>
                                          plain_scalar (node_of dfs (snd kv))) kvs,
                   ro))
           (read_items n h mapping)"
  "ign = ignore_aliases \<Longrightarrow> ak = None \<Longrightarrow>
     represent_sequence ign dfs n h ak lst ro
       = map_option (\<lambda>ds. (node_of dfs (DList ds), ro)) (read_list n h lst)"
  "ign = ignore_aliases \<Longrightarrow>
     represent_sequence_items ign dfs n h lst items best ro
       = map_option
           (\<lambda>ds. (items @ map (node_of dfs) ds,
                  best \<and> list_all plain_scalar (map (node_of dfs) ds), ro))
           (read_list n h lst)"
proof (induction ign dfs n h v ro and ign dfs n h ak mapping ro and ign dfs n h mapping pairs best ro
        and ign dfs n h ak lst ro and ign dfs n h lst items best ro
       rule: represent_data_represent_odict_represent_odict_items_represent_sequence_represent_sequence_items.induct)
  case (6 ign dfs n h a ro)
  have akn: "alias_key_of ign (Ref a) = None" using 6(5) by simp
  show ?case
  proof (cases "a < length h")
    case False
    then show ?thesis using akn by simp
  next
    case True
    show ?thesis
    proof (cases "h ! a")
      case (PyList lst)
      from 6(1)[OF akn True PyList 6(5) refl] akn True PyList
      show ?thesis by (cases "read_list n h lst") simp_all
    next
      case (PyODict mapping)
      from 6(2)[OF akn True PyODict 6(5) refl] akn True PyODict
      show ?thesis by (cases "read_items n h mapping") simp_all
    qed
  qed
next
  case (7 ign dfs n h alias_key mapping ro)
  then show ?case by (cases "read_items n h mapping") simp_all
next
  case (9 ign dfs n h item items pairs best_style ro)
  have k: "represent_data ign dfs n h (VStr (fst item)) ro = Some (represent_text (fst item), ro)"
    by simp
  note v = 9(2)[OF k refl 9(4)]
  show ?case
  proof (cases "read n h (snd item)")
    case None
    with v k show ?thesis by simp
  next
    case (Some d)
    with v have v': "represent_data ign dfs n h (snd item) ro = Some (node_of dfs d, ro)"
      by simp
    from 9(3)[OF k refl v' refl 9(4)] k v' Some
    show ?thesis
      by (cases "read_items n h items") (auto simp: conj_commute conj_left_commute)
  qed
next
  case (10 ign dfs n h alias_key lst ro)
  then show ?case by (cases "read_list n h lst") simp_all
next
  case (12 ign dfs n h x xs items best_style ro)
  note v = 12(1)[OF 12(3)]
  show ?case
  proof (cases "read n h x")
    case None
    with v show ?thesis by simp
  next
    case (Some d)
    with v have v': "represent_data ign dfs n h x ro = Some (node_of dfs d, ro)"
      by simp
    from 12(2)[OF v' refl 12(3)] v' Some
    show ?thesis
      by (cases "read_list n h xs") (auto simp: conj_commute conj_left_commute)
  qed
qed simp_all

lemma node_of_no_aliases: "aliases (node_of dfs d) = []"
proof (induction d)
  case (DStr s)
  show ?case by (simp add: represent_text_def represent_scalar_def)
next
  case (DList ds)
  then show ?case by (induction ds) simp_all
next
  case (DMap kvs)
  have "\<forall>kv \<in> set kvs. aliases (represent_text (fst kv)) @ aliases (node_of dfs (snd kv)) = []"
  proof
    fix kv assume m: "kv \<in> set kvs"
    obtain k v where kv: "kv = (k, v)" by (cases kv)
    have "v \<in> Basic_BNFs.snds kv" by (simp add: kv)
    from DMap[OF m this] show "aliases (represent_text (fst kv)) @ aliases (node_of dfs (snd kv)) = []"
      by (simp add: kv represent_text_def represent_scalar_def)
  qed
  then show ?case by simp
qed (simp_all add: represent_scalar_def)

lemma yaml_sane_dump_value:
  "yaml_sane_dump emit h v binary =
     (case deref h v of
        None \<Rightarrow> Inl RecursionError
      | Some d \<Rightarrow>
          (if binary then
             (case utf8_encode (emit (node_of (Some False) d)) of
                None \<Rightarrow> Inl UnicodeEncodeError
              | Some b \<Rightarrow> Inr (Bytes b))
           else Inr (Text (emit (node_of (Some False) d)))))"
  unfolding yaml_sane_dump_def deref_def
  by (cases "read (length h) h v") (simp_all add: represent_ignoring_aliases(1))

text \<open>
  Claim C4. With \<^verbatim>\<open>ignore_aliases\<close> overridden to return \<^verbatim>\<open>True\<close>, the representer keeps
  no record of the objects it has seen: on every heap, whatever objects are shared in it,
  the node graph of a value is the tree \<open>node_of\<close> of its document value, with every
  occurrence of a sub-mapping written out in full, and that tree holds no alias node; it
  is this tree that \<^verbatim>\<open>yaml_sane_dump\<close> hands to the emitter.
\<close>

theorem yaml_dump_ignores_aliases:
  "represent_data ignore_aliases dfs n h v ro
     = map_option (\<lambda>d. (node_of dfs d, ro)) (read n h v) \<and>
   aliases (node_of dfs d) = [] \<and>
   yaml_sane_dump emit h v binary =
     (case deref h v of
        None \<Rightarrow> Inl RecursionError
      | Some d \<Rightarrow>
          (if binary then
             (case utf8_encode (emit (node_of (Some False) d)) of
                None \<Rightarrow> Inl UnicodeEncodeError
              | Some b \<Rightarrow> Inr (Bytes b))
           else Inr (Text (emit (node_of (Some False) d)))))"
  using represent_ignoring_aliases(1)[OF refl] node_of_no_aliases yaml_sane_dump_value
  by simp

text \<open>
  An \<^verbatim>\<open>OrderedDict\<close> that holds one and the same empty mapping under two keys: the
  override writes the mapping out twice, where the library's own \<^verbatim>\<open>ignore_aliases\<close>
  returns the first node again for the second occurrence.
\<close>

lemma shared_mapping_written_twice:
  "represent_data ignore_aliases (Some False) 2
       [PyODict [], PyODict [(u ''a'', Ref 0), (u ''b'', Ref 0)]] (Ref 1) []
     = Some (MappingNode YAML_MAP_TAG
               [(represent_text (u ''a''), MappingNode YAML_MAP_TAG [] False),
                (represent_text (u ''b''), MappingNode YAML_MAP_TAG [] False)] False, [])"
  by (simp add: alias_key_of_def ignore_aliases_def flow_style_of_def numeral_2_eq_2)

lemma library_default_writes_alias:
  "represent_data library_ignore_aliases (Some False) 2
       [PyODict [], PyODict [(u ''a'', Ref 0), (u ''b'', Ref 0)]] (Ref 1) []
     = Some (MappingNode YAML_MAP_TAG
               [(represent_text (u ''a''), MappingNode YAML_MAP_TAG [] False),
                (represent_text (u ''b''), AliasNode 0)] False, [0, 1])"
  by (simp add: alias_key_of_def library_ignore_aliases_def flow_style_of_def numeral_2_eq_2)


subsection \<open>The JSON text\<close>

lemma iterencode_dict_join:
  "iterencode_dict enc level first kvs =
     (if kvs = [] then []
      else (if first then [] else separator enc level)
             @ join (separator enc level) (map (json_item enc level) kvs))"
proof (induction kvs arbitrary: first)
  case Nil
  show ?case by simp
next
  case (Cons kv kvs)
  show ?case
  proof (cases kvs)
    case Nil
    then show ?thesis by (simp add: json_item_def)
  next
    case (Cons kv' kvs')
    with Cons.IH[of False] show ?thesis by (simp add: json_item_def)
  qed
qed

lemma iterencode_list_join:
  "iterencode_list enc level first xs =
     (if xs = [] then []
      else (if first then [] else separator enc level)
             @ join (separator enc level) (map (iterencode enc level) xs))"
proof (induction xs arbitrary: first)
  case Nil
  show ?case by simp
next
  case (Cons x xs)
  show ?case
  proof (cases xs)
    case Nil
    then show ?thesis by simp
  next
    case (Cons x' xs')
    with Cons.IH[of False] show ?thesis by simp
  qed
qed

lemma pretty_mapping_text:
  "dct \<noteq> [] \<Longrightarrow>
   iterencode pretty_encoder level (DMap dct)
     = [123] @ newline_indent 4 (level + 1)
         @ join (u '','' @ newline_indent 4 (level + 1))
             (map (\<lambda>kv. encode_basestring (fst kv) @ u '': ''
                          @ iterencode pretty_encoder (level + 1) (snd kv)) dct)
         @ newline_indent 4 level @ [125]"
  by (simp add: iterencode_dict_join pretty_encoder_def separator_def json_item_def[abs_def])

lemma default_mapping_text:
  "dct \<noteq> [] \<Longrightarrow>
   iterencode default_encoder level (DMap dct)
     = [123]
         @ join (u '', '')
             (map (\<lambda>kv. encode_basestring (fst kv) @ u '': ''
                          @ iterencode default_encoder level (snd kv)) dct)
         @ [125]"
  by (simp add: iterencode_dict_join default_encoder_def separator_def json_item_def[abs_def])

lemma pretty_list_text:
  "lst \<noteq> [] \<Longrightarrow>
   iterencode pretty_encoder level (DList lst)
     = [91] @ newline_indent 4 (level + 1)
         @ join (u '','' @ newline_indent 4 (level + 1))
             (map (iterencode pretty_encoder (level + 1)) lst)
         @ newline_indent 4 level @ [93]"
  by (simp add: iterencode_list_join pretty_encoder_def separator_def)

lemma default_list_text:
  "lst \<noteq> [] \<Longrightarrow>
   iterencode default_encoder level (DList lst)
     = [91] @ join (u '', '') (map (iterencode default_encoder level) lst) @ [93]"
  by (simp add: iterencode_list_join default_encoder_def separator_def)







lemma int_str_chars:
  "int_str i \<noteq> [] \<and> (\<forall>c \<in> set (int_str i). c = 45 \<or> (48 \<le> c \<and> c \<le> 57)) \<and> 48 \<le> last (int_str i)"
proof -
  have l: "\<And>n. 48 \<le> last (dec n)" using dec_digits by (meson last_in_set)
  show ?thesis using dec_digits l by (auto simp: int_str_def)
qed

lemma hex_fixed_chars: "\<forall>c \<in> set (hex_fixed w n). 48 \<le> c"
  by (induction w arbitrary: n) (auto simp: hex_digit_def)

lemma json_escape_no_newline: "10 \<notin> set (json_escape c)"
  using hex_fixed_chars[of 4 c] by (auto simp: json_escape_def)

lemma encode_basestring_no_newline: "10 \<notin> set (encode_basestring s)"
  using json_escape_no_newline by (auto simp: encode_basestring_def)

lemma default_encoder_one_line:
  "enc = default_encoder \<Longrightarrow> 10 \<notin> set (iterencode enc level d)"
  "enc = default_encoder \<Longrightarrow> 10 \<notin> set (iterencode_list enc level first xs)"
  "enc = default_encoder \<Longrightarrow> 10 \<notin> set (iterencode_dict enc level first kvs)"
proof (induction enc level d and enc level first xs and enc level first kvs
       rule: iterencode_iterencode_list_iterencode_dict.induct)
  case (1 enc level s)
  show ?case using encode_basestring_no_newline by simp
next
  case (2 enc level i)
  show ?case using int_str_chars[of i] by auto
next
  case (3 enc level b)
  show ?case by (simp add: u_def)
next
  case (4 enc level)
  show ?case by (simp add: u_def)
next
  case (5 enc level lst)
  then show ?case by (auto simp: default_encoder_def u_def)
next
  case (6 enc level dct)
  then show ?case by (auto simp: default_encoder_def u_def)
next
  case (7 enc level first)
  show ?case by simp
next
  case (8 enc level first x xs)
  then show ?case by (auto simp: default_encoder_def separator_def u_def)
next
  case (9 enc level first)
  show ?case by simp
next
  case (10 enc level first kv kvs)
  then show ?case using encode_basestring_no_newline[of "fst kv"]
    by (auto simp: default_encoder_def separator_def u_def)
qed

lemma iterencode_end: "iterencode enc level d \<noteq> [] \<and> last (iterencode enc level d) \<noteq> 10"
proof (cases d)
  case (DStr s)
  then show ?thesis by (simp add: encode_basestring_def)
next
  case (DInt i)
  then show ?thesis using int_str_chars[of i] by auto
next
  case (DBool b)
  then show ?thesis by (simp add: u_def)
next
  case DNull
  then show ?thesis by (simp add: u_def)
next
  case (DList lst)
  then show ?thesis by (cases "indent enc") (auto simp: u_def)
next
  case (DMap dct)
  then show ?thesis by (cases "indent enc") (auto simp: u_def)
qed

lemma json_escape_literal: "32 \<le> c \<Longrightarrow> c \<noteq> 34 \<Longrightarrow> c \<noteq> 92 \<Longrightarrow> json_escape c = [c]"
  by (simp add: json_escape_def)

lemma encode_basestring_literal:
  assumes "\<forall>c \<in> set s. 32 \<le> c \<and> c \<noteq> 34 \<and> c \<noteq> 92"
  shows "encode_basestring s = [34] @ s @ [34]"
proof -
  have "\<forall>c \<in> set s. json_escape c = [c]" using assms json_escape_literal by blast
  then have "concat (map json_escape s) = s" by (rule concat_map_single)
  then show ?thesis by (simp add: encode_basestring_def)
qed

lemma json_dump_dict_pretty:
  assumes "deref h spec = Some d"
  shows "json_dump_dict True h spec = Inr (Text (iterencode pretty_encoder 0 d @ [10]))"
  using assms iterencode_end[of pretty_encoder 0 d]
  by (simp add: json_dump_dict_def json_dumps_def)

lemma json_dump_dict_compact:
  assumes "deref h spec = Some d"
  shows "json_dump_dict False h spec = Inr (Text (iterencode default_encoder 0 d))"
  using assms by (simp add: json_dump_dict_def json_dumps_def)


text \<open>
  Claim C6, as amended. For every object with a document value, the pretty mode returns
  the text of \<^verbatim>\<open>json.dumps\<close> with \<^verbatim>\<open>indent=4\<close> and separators \<^verbatim>\<open>","\<close> and \<^verbatim>\<open>": "\<close> followed
  by one newline, which that text never ends with itself: every item of a mapping or a
  list starts on a line of its own, four spaces deeper per level, the items are separated
  by a comma and the line break, and a key is followed by \<^verbatim>\<open>": "\<close>. The compact mode
  returns the text of \<^verbatim>\<open>json.dumps\<close> with its default separators \<^verbatim>\<open>", "\<close> and \<^verbatim>\<open>": "\<close>: one
  line, no newline anywhere. In both modes a string whose characters are neither control
  characters nor the double quote nor the backslash, non-ASCII ones included, is copied
  between double quotes as it is.
\<close>

theorem json_dump_dict_text:
  assumes "deref h spec = Some d"
  shows "json_dump_dict True h spec = Inr (Text (iterencode pretty_encoder 0 d @ [10])) \<and>
         last (iterencode pretty_encoder 0 d) \<noteq> 10 \<and>
         json_dump_dict False h spec = Inr (Text (iterencode default_encoder 0 d)) \<and>
         10 \<notin> set (iterencode default_encoder 0 d) \<and>
         (dct \<noteq> [] \<longrightarrow>
            iterencode pretty_encoder level (DMap dct)
              = [123] @ newline_indent 4 (level + 1)
                  @ join (u '','' @ newline_indent 4 (level + 1))
                      (map (\<lambda>kv. encode_basestring (fst kv) @ u '': ''
                                   @ iterencode pretty_encoder (level + 1) (snd kv)) dct)
                  @ newline_indent 4 level @ [125]) \<and>
         (lst \<noteq> [] \<longrightarrow>
            iterencode pretty_encoder level (DList lst)
              = [91] @ newline_indent 4 (level + 1)
                  @ join (u '','' @ newline_indent 4 (level + 1))
                      (map (iterencode pretty_encoder (level + 1)) lst)
                  @ newline_indent 4 level @ [93]) \<and>
         (dct \<noteq> [] \<longrightarrow>
            iterencode default_encoder level (DMap dct)
              = [123]
                  @ join (u '', '')
                      (map (\<lambda>kv. encode_basestring (fst kv) @ u '': ''
                                   @ iterencode default_encoder level (snd kv)) dct)
                  @ [125]) \<and>
         (lst \<noteq> [] \<longrightarrow>
            iterencode default_encoder level (DList lst)
              = [91] @ join (u '', '') (map (iterencode default_encoder level) lst) @ [93]) \<and>
         ((\<forall>c \<in> set s. 32 \<le> c \<and> c \<noteq> 34 \<and> c \<noteq> 92) \<longrightarrow>
            iterencode enc level (DStr s) = [34] @ s @ [34])"
proof (intro conjI impI)
  show "json_dump_dict True h spec = Inr (Text (iterencode pretty_encoder 0 d @ [10]))"
    using assms by (rule json_dump_dict_pretty)
  show "last (iterencode pretty_encoder 0 d) \<noteq> 10"
    using iterencode_end by blast
  show "json_dump_dict False h spec = Inr (Text (iterencode default_encoder 0 d))"
    using assms by (rule json_dump_dict_compact)
  show "10 \<notin> set (iterencode default_encoder 0 d)"
    using default_encoder_one_line(1)[OF refl] .
next
  assume "dct \<noteq> []"
  then show "iterencode pretty_encoder level (DMap dct)
              = [123] @ newline_indent 4 (level + 1)
                  @ join (u '','' @ newline_indent 4 (level + 1))
                      (map (\<lambda>kv. encode_basestring (fst kv) @ u '': ''
                                   @ iterencode pretty_encoder (level + 1) (snd kv)) dct)
                  @ newline_indent 4 level @ [125]"
    by (rule pretty_mapping_text)
next
  assume "lst \<noteq> []"
  then show "iterencode pretty_encoder level (DList lst)
              = [91] @ newline_indent 4 (level + 1)
                  @ join (u '','' @ newline_indent 4 (level + 1))
                      (map (iterencode pretty_encoder (level + 1)) lst)
                  @ newline_indent 4 level @ [93]"
    by (rule pretty_list_text)
next
  assume "dct \<noteq> []"
  then show "iterencode default_encoder level (DMap dct)
              = [123]
                  @ join (u '', '')
                      (map (\<lambda>kv. encode_basestring (fst kv) @ u '': ''
                                   @ iterencode default_encoder level (snd kv)) dct)
                  @ [125]"
    by (rule default_mapping_text)
next
  assume "lst \<noteq> []"
  then show "iterencode default_encoder level (DList lst)
              = [91] @ join (u '', '') (map (iterencode default_encoder level) lst) @ [93]"
    by (rule default_list_text)
next
  assume "\<forall>c \<in> set s. 32 \<le> c \<and> c \<noteq> 34 \<and> c \<noteq> 92"
  then show "iterencode enc level (DStr s) = [34] @ s @ [34]"
    using encode_basestring_literal by simp
qed

theorem json_dump_dict_text_witness:
  "deref sample_heap (Ref 1) = Some (DMap [(u ''a'', DInt 1), (u ''b'', DList [DInt 1, DInt 2])]) \<and>
   json_dump_dict True sample_heap (Ref 1)
     = Inr (Text [123, 10, 32, 32, 32, 32, 34, 97, 34, 58, 32, 49, 44, 10,
                  32, 32, 32, 32, 34, 98, 34, 58, 32, 91, 10,
                  32, 32, 32, 32, 32, 32, 32, 32, 49, 44, 10,
                  32, 32, 32, 32, 32, 32, 32, 32, 50, 10,
                  32, 32, 32, 32, 93, 10, 125, 10]) \<and>
   json_dump_dict False sample_heap (Ref 1)
     = Inr (Text [123, 34, 97, 34, 58, 32, 49, 44, 32, 34, 98, 34, 58, 32, 91, 49, 44, 32,
                  50, 93, 125]) \<and>
   iterencode pretty_encoder 0 (DStr [233, 20013, 32, 100]) = [34, 233, 20013, 32, 100, 34]"
proof -
  let ?d = "DMap [(u ''a'', DInt 1), (u ''b'', DList [DInt 1, DInt 2])]"
  have d: "deref sample_heap (Ref 1) = Some ?d"
    by code_simp
  note t = json_dump_dict_text[OF d, of "[]" 0 "[]" "[233, 20013, 32, 100]" pretty_encoder]
  have p: "iterencode pretty_encoder 0 ?d @ [10]
             = [123, 10, 32, 32, 32, 32, 34, 97, 34, 58, 32, 49, 44, 10,
                  32, 32, 32, 32, 34, 98, 34, 58, 32, 91, 10,
                  32, 32, 32, 32, 32, 32, 32, 32, 49, 44, 10,
                  32, 32, 32, 32, 32, 32, 32, 32, 50, 10,
                  32, 32, 32, 32, 93, 10, 125, 10]"
    by code_simp
  have c: "iterencode default_encoder 0 ?d
             = [123, 34, 97, 34, 58, 32, 49, 44, 32, 34, 98, 34, 58, 32, 91, 49, 44, 32,
                  50, 93, 125]"
    by code_simp
  have s: "\<forall>c \<in> set [233, 20013, 32, 100::nat]. 32 \<le> c \<and> c \<noteq> 34 \<and> c \<noteq> 92"
    by simp
  from t have t1: "json_dump_dict True sample_heap (Ref 1)
                     = Inr (Text (iterencode pretty_encoder 0 ?d @ [10]))"
    and t2: "json_dump_dict False sample_heap (Ref 1)
                     = Inr (Text (iterencode default_encoder 0 ?d))"
    and t3: "(\<forall>c \<in> set [233, 20013, 32, 100::nat]. 32 \<le> c \<and> c \<noteq> 34 \<and> c \<noteq> 92) \<longrightarrow>
            iterencode pretty_encoder 0 (DStr [233, 20013, 32, 100]) = [34] @ [233, 20013, 32, 100] @ [34]"
    by simp_all
  from t3 s have t3': "iterencode pretty_encoder 0 (DStr [233, 20013, 32, 100])
                         = [34, 233, 20013, 32, 100, 34]"
    by simp
  show ?thesis
    by (intro conjI d t1[unfolded p] t2[unfolded c] t3')
qed

text \<open>
  The claim as first stated fails on the document \<^verbatim>\<open>{"a": 1, "b": [1, 2]}\<close>: the pretty text
  has no \<^verbatim>\<open>", "\<close> in it, since \<^verbatim>\<open>_dump_dict\<close> passes \<^verbatim>\<open>","\<close> as item separator, and the
  compact text has a space after every comma and colon, since it is written with the
  default separators.
\<close>

theorem json_codec_separators_counterexample:
  "json_dump_dict True sample_heap (Ref 1)
     = Inr (Text [123, 10, 32, 32, 32, 32, 34, 97, 34, 58, 32, 49, 44, 10,
                  32, 32, 32, 32, 34, 98, 34, 58, 32, 91, 10,
                  32, 32, 32, 32, 32, 32, 32, 32, 49, 44, 10,
                  32, 32, 32, 32, 32, 32, 32, 32, 50, 10,
                  32, 32, 32, 32, 93, 10, 125, 10]) \<and>
   \<not> sublist [44, 32]
       [123, 10, 32, 32, 32, 32, 34, 97, 34, 58, 32, 49, 44, 10,
        32, 32, 32, 32, 34, 98, 34, 58, 32, 91, 10,
        32, 32, 32, 32, 32, 32, 32, 32, 49, 44, 10,
        32, 32, 32, 32, 32, 32, 32, 32, 50, 10,
        32, 32, 32, 32, 93, 10, 125, (10::nat)] \<and>
   json_dump_dict False sample_heap (Ref 1)
     = Inr (Text [123, 34, 97, 34, 58, 32, 49, 44, 32, 34, 98, 34, 58, 32, 91, 49, 44, 32,
                  50, 93, 125]) \<and>
   sublist [44, 32]
     [123, 34, 97, 34, 58, 32, 49, 44, 32, 34, 98, 34, 58, 32, 91, 49, 44, 32, 50, 93,
      (125::nat)]"
  by code_simp


text \<open>
  Claim C5, as amended. The table binds \<^verbatim>\<open>flex\<close> to \<^verbatim>\<open>_validate_flex\<close>, which tries the import
  on every call: in an environment where the import fails the call returns without
  touching the heap, whatever the document, and in an environment where it succeeds the
  engine is called on the document and its outcome is the validator's, a rejection
  turned into \<^verbatim>\<open>SwaggerValidationError\<close>. Nothing is decided when the table is built.
\<close>

theorem validate_flex_missing_engine:
  "VALIDATORS (u ''flex'') = Some validate_flex \<and>
   (flex_core_parse e = None \<longrightarrow> validate_flex e spec h = (h, Inr ())) \<and>
   (flex_core_parse e = Some eng \<longrightarrow>
      validate_flex e spec h
        = (case eng spec h of
             (h', Passed) \<Rightarrow> (h', Inr ())
           | (h', Rejected ex) \<Rightarrow> (h', Inl (SwaggerValidationError ex None None))
           | (h', Crashed x) \<Rightarrow> (h', Inl x)))"
  by (simp add: VALIDATORS_def validate_flex_def u_def)

theorem validate_flex_missing_engine_witness:
  "flex_core_parse no_engines = None \<and>
   validate_flex no_engines (Ref 1) sample_heap = (sample_heap, Inr ()) \<and>
   flex_core_parse flex_installed = Some rejecting_engine \<and>
   validate_flex flex_installed (Ref 1) sample_heap
     = (sample_heap, Inl (SwaggerValidationError (u ''invalid'') None None))"
proof -
  have n: "flex_core_parse no_engines = None"
    by (simp add: no_engines_def)
  have i: "flex_core_parse flex_installed = Some rejecting_engine"
    by (simp add: flex_installed_def)
  note a = validate_flex_missing_engine[of no_engines "Ref 1" sample_heap rejecting_engine]
  note b = validate_flex_missing_engine[of flex_installed "Ref 1" sample_heap rejecting_engine]
  from a n have a': "validate_flex no_engines (Ref 1) sample_heap = (sample_heap, Inr ())"
    by blast
  from b i have b': "validate_flex flex_installed (Ref 1) sample_heap
     = (sample_heap, Inl (SwaggerValidationError (u ''invalid'') None None))"
    by (simp add: rejecting_engine_def)
  show ?thesis
    by (intro conjI n a' i b')
qed

text \<open>
  The claim as first stated fails. \<^verbatim>\<open>ssv\<close> is registered, and with its engine missing the
  call raises \<^verbatim>\<open>ImportError\<close>: \<^verbatim>\<open>_validate_swagger_spec_validator\<close> imports outside any
  \<^verbatim>\<open>try\<close>. And the registered \<^verbatim>\<open>flex\<close> validator is no permanent no-op: the same table entry
  returns in an environment without the engine and rejects the document in one with it.
\<close>

theorem missing_engine_counterexample:
  "VALIDATORS (u ''ssv'') = Some validate_swagger_spec_validator \<and>
   ssv_validate_spec no_engines = None \<and>
   validate_swagger_spec_validator no_engines (Ref 1) sample_heap
     = (sample_heap, Inl (ImportError (u ''swagger_spec_validator''))) \<and>
   VALIDATORS (u ''flex'') = Some validate_flex \<and>
   validate_flex no_engines (Ref 1) sample_heap = (sample_heap, Inr ()) \<and>
   validate_flex flex_installed (Ref 1) sample_heap
     = (sample_heap, Inl (SwaggerValidationError (u ''invalid'') None None))"
  by (simp add: VALIDATORS_def validate_swagger_spec_validator_def validate_flex_def
      no_engines_def flex_installed_def rejecting_engine_def u_def)



lemma force_bytes_error:
  "force_bytes out = Inl ex \<Longrightarrow> ex = UnicodeEncodeError"
  by (auto simp: force_bytes_def split: pyout.splits option.splits)











lemma dec_digit_range: "c \<in> set (dec n) \<Longrightarrow> 48 \<le> c \<and> c \<le> 57"
  using dec_digits[of n] by (auto simp: list_all_iff)























end
